theory Spec2Isabelle
  imports Main "HOL-Library.Multiset"
begin

section \<open>Data model (src/app.py, lines 22--55)\<close>

text \<open>
  A \<open>DateTime\<close> column holds a reading of \<open>datetime.utcnow\<close>; readings are
  modelled as integers (microseconds). Text columns are Python strings; a \<open>char\<close>
  stands for a code point below 256. \<open>status\<close> and \<open>kind\<close> are free text in the
  source (\<open>String(30)\<close>), so they are strings here as well.
\<close>

type_synonym datetime = int

record Project =
  p_id :: int
  p_name :: string
  p_created_at :: datetime

record Task =
  t_id :: int
  title :: string
  description :: string
  status :: string
  next_action :: string
  priority :: int
  project_id :: "int option"
  created_at :: datetime
  updated_at :: datetime
  last_touched_at :: datetime

record Note =
  n_id :: int
  task_id :: int
  content :: string
  n_created_at :: datetime
  kind :: string

text \<open>
  The database: the three tables in storage order, and the number of times the
  process has read the clock so far. The clock itself is a parameter \<open>clk\<close> of
  every operation that reads it: \<open>clk k\<close> is what the \<open>k\<close>-th call of
  \<open>datetime.utcnow\<close> returns.
\<close>

record db =
  projects :: "Project list"
  tasks :: "Task list"
  "notes" :: "Note list"
  ticks :: nat

type_synonym clock = "nat \<Rightarrow> datetime"

definition utcnow :: "clock \<Rightarrow> db \<Rightarrow> datetime \<times> db" where
  "utcnow clk s = (clk (ticks s), s\<lparr>ticks := Suc (ticks s)\<rparr>)"

text \<open>
  Errors of the routes: \<open>HTTPException(status, detail)\<close> raised by the route
  bodies, the 422 response of the framework when a request body does not fit
  its schema class, and the \<open>OverflowError\<close> the SQLite driver raises when it is
  given an integer parameter that does not fit 64 bits (no route catches it:
  the answer is a 500, and the open transaction is rolled back).
\<close>

datatype error = HTTPException nat string | RequestValidationError | OverflowError


definition NoActiveTaskError :: error where
  "NoActiveTaskError =
     HTTPException 404 ''No active tasks yet. Create one at / or POST /api/tasks.''"


datatype Response = Response nat

section \<open>Schemas (lines 84--103)\<close>

text \<open>
  A field of a JSON request body as the schema class sees it: not there, \<open>null\<close>,
  a value of another type than the annotation accepts, or an accepted value.
\<close>

datatype 'a field = Absent | Null | Mistyped | Value 'a

record TaskIn_json =
  j_title :: "string field"
  j_description :: "string field"
  j_next_action :: "string field"
  j_priority :: "int field"
  j_status :: "string field"
  j_project_name :: "string field"

record TaskIn =
  in_title :: string
  in_description :: string
  in_next_action :: string
  in_priority :: int
  in_status :: string
  in_project_name :: "string option"

record TaskPatch =
  patch_title :: "string option"
  patch_description :: "string option"
  patch_next_action :: "string option"
  patch_priority :: "int option"
  patch_status :: "string option"
  patch_project_name :: "string option"

record NoteIn_json =
  j_task_id :: "int field"
  j_content :: "string field"
  j_kind :: "string field"

record NoteIn =
  note_task_id :: int
  note_content :: string
  note_kind :: string

text \<open>\<open>x: T\<close> (required), \<open>x: T = d\<close> and \<open>x: Optional[T] = None\<close>.\<close>

fun required :: "'a field \<Rightarrow> error + 'a" where
  "required (Value v) = Inr v"
| "required _ = Inl RequestValidationError"

fun with_default :: "'a \<Rightarrow> 'a field \<Rightarrow> error + 'a" where
  "with_default d Absent = Inr d"
| "with_default d (Value v) = Inr v"
| "with_default d _ = Inl RequestValidationError"

fun optional :: "'a field \<Rightarrow> error + 'a option" where
  "optional Absent = Inr None"
| "optional Null = Inr None"
| "optional (Value v) = Inr (Some v)"
| "optional Mistyped = Inl RequestValidationError"

fun and_then :: "error + 'a \<Rightarrow> ('a \<Rightarrow> error + 'b) \<Rightarrow> error + 'b" where
  "and_then (Inl e) f = Inl e"
| "and_then (Inr v) f = f v"

definition validate_TaskIn :: "TaskIn_json \<Rightarrow> error + TaskIn" where
  "validate_TaskIn j =
     and_then (required (j_title j)) (\<lambda>t.
     and_then (with_default [] (j_description j)) (\<lambda>d.
     and_then (with_default [] (j_next_action j)) (\<lambda>na.
     and_then (with_default 2 (j_priority j)) (\<lambda>p.
     and_then (with_default ''in_progress'' (j_status j)) (\<lambda>st.
     and_then (optional (j_project_name j)) (\<lambda>pn.
       Inr \<lparr>in_title = t, in_description = d, in_next_action = na,
            in_priority = p, in_status = st, in_project_name = pn\<rparr>))))))"

definition validate_NoteIn :: "NoteIn_json \<Rightarrow> error + NoteIn" where
  "validate_NoteIn j =
     and_then (required (j_task_id j)) (\<lambda>i.
     and_then (required (j_content j)) (\<lambda>c.
     and_then (with_default ''note'' (j_kind j)) (\<lambda>k.
       Inr \<lparr>note_task_id = i, note_content = c, note_kind = k\<rparr>)))"

section \<open>Python and storage primitives\<close>

text \<open>\<open>a or b\<close> on strings and on integers: the empty string and 0 are falsy.\<close>

definition str_or :: "string \<Rightarrow> string \<Rightarrow> string" where
  "str_or a b = (if a = [] then b else a)"

definition int_or :: "int \<Rightarrow> int \<Rightarrow> int" where
  "int_or a b = (if a = 0 then b else a)"

text \<open>\<open>str.strip()\<close>: the characters \<open>str.isspace\<close> accepts, below code point 256.\<close>

definition py_isspace :: "char \<Rightarrow> bool" where
  "py_isspace c = ((of_char c :: nat) \<in> set [9, 10, 11, 12, 13, 28, 29, 30, 31, 32, 133, 160])"

definition strip :: "string \<Rightarrow> string" where
  "strip x = rev (dropWhile py_isspace (rev (dropWhile py_isspace x)))"

text \<open>
  An \<open>INTEGER PRIMARY KEY\<close> column of SQLite without \<open>AUTOINCREMENT\<close>: a new row
  gets the largest key of the table plus one, and 1 in an empty table.
\<close>

definition next_id :: "int list \<Rightarrow> int" where
  "next_id ids = (if ids = [] then 1 else Max (set ids) + 1)"

text \<open>
  \<open>order_by(col.desc())\<close>: rows by decreasing key. SQL leaves the order of rows
  with equal keys open, and SQLite decides it by the way it runs the query. The
  notes of one task are found through the index of \<open>task_id\<close> and then sorted:
  notes with equal keys keep their storage order (\<open>order_by_desc\<close>). The tasks
  are read through the index of \<open>last_touched_at\<close> (line 42), backwards: of two
  tasks with equal keys the one stored later comes first
  (\<open>order_by_desc_index\<close>).
\<close>

definition order_by_desc :: "('a \<Rightarrow> int) \<Rightarrow> 'a list \<Rightarrow> 'a list" where
  "order_by_desc f xs = sort_key (\<lambda>x. - f x) xs"

definition order_by_desc_index :: "('a \<Rightarrow> int) \<Rightarrow> 'a list \<Rightarrow> 'a list" where
  "order_by_desc_index f xs = rev (sort_key f xs)"

text \<open>
  An \<open>Integer\<close> column of SQLite holds a signed 64-bit integer. The integers of a
  request are Python integers, which have no bound: binding one that is out of
  this range as a statement parameter raises \<open>OverflowError\<close>.
\<close>

definition int64_ok :: "int \<Rightarrow> bool" where
  "int64_ok n = (- (2 ^ 63) \<le> n \<and> n < 2 ^ 63)"

text \<open>The row of a table with a given primary key.\<close>

definition Task_row :: "db \<Rightarrow> int \<Rightarrow> Task option" where
  "Task_row s i = find (\<lambda>t. t_id t = i) (tasks s)"

definition Note_row :: "db \<Rightarrow> int \<Rightarrow> Note option" where
  "Note_row s i = find (\<lambda>n. n_id n = i) (notes s)"

text \<open>
  \<open>db.query(Task).get(task_id)\<close> and \<open>db.query(Note).get(note_id)\<close>: a \<open>SELECT\<close>
  with the id as parameter, which answers the row or \<open>None\<close>.
\<close>

definition query_Task_get :: "db \<Rightarrow> int \<Rightarrow> error + Task option" where
  "query_Task_get s i = (if int64_ok i then Inr (Task_row s i) else Inl OverflowError)"

definition query_Note_get :: "db \<Rightarrow> int \<Rightarrow> error + Note option" where
  "query_Note_get s i = (if int64_ok i then Inr (Note_row s i) else Inl OverflowError)"

text \<open>
  \<open>db.add(x); db.commit(); db.refresh(x)\<close> for a new row. Column defaults that are
  callables are called once per column, in column order, so a new task reads the
  clock three times; the statement's parameters are bound after that. Of the
  integers of a new row only the priority of a task comes from a request: the
  ids are made by SQLite or read from rows.
\<close>

definition insert_Project :: "clock \<Rightarrow> string \<Rightarrow> db \<Rightarrow> Project \<times> db" where
  "insert_Project clk name s =
     (let (now, s1) = utcnow clk s;
          proj = \<lparr>p_id = next_id (map p_id (projects s1)), p_name = name, p_created_at = now\<rparr>
      in (proj, s1\<lparr>projects := projects s1 @ [proj]\<rparr>))"

definition insert_Task ::
  "clock \<Rightarrow> string \<Rightarrow> string \<Rightarrow> string \<Rightarrow> string \<Rightarrow> int \<Rightarrow> Project option \<Rightarrow> db
     \<Rightarrow> (error + Task) \<times> db" where
  "insert_Task clk ttl descr st na pr proj s =
     (let (c, s1) = utcnow clk s;
          (u, s2) = utcnow clk s1;
          (l, s3) = utcnow clk s2;
          task = \<lparr>t_id = next_id (map t_id (tasks s3)), title = ttl, description = descr,
                  status = st, next_action = na, priority = pr,
                  project_id = map_option p_id proj,
                  created_at = c, updated_at = u, last_touched_at = l\<rparr>
      in if int64_ok pr then (Inr task, s3\<lparr>tasks := tasks s3 @ [task]\<rparr>)
         else (Inl OverflowError, s3))"

definition insert_Note :: "clock \<Rightarrow> int \<Rightarrow> string \<Rightarrow> string \<Rightarrow> db \<Rightarrow> Note \<times> db" where
  "insert_Note clk tid c k s =
     (let (now, s1) = utcnow clk s;
          note = \<lparr>n_id = next_id (map n_id (notes s1)), task_id = tid, content = c,
                  n_created_at = now, kind = k\<rparr>
      in (note, s1\<lparr>notes := notes s1 @ [note]\<rparr>))"

text \<open>
  The commit of a modified task object. \<open>loaded\<close> says that the object still
  holds the column values it was loaded with (no commit has expired it since):
  then the session writes only the columns whose value differs from the loaded
  one, and emits no \<open>UPDATE\<close> when none differs. Every \<open>UPDATE\<close> of a task row
  fires \<open>onupdate=datetime.utcnow\<close> of \<open>updated_at\<close> (line 41). The routes
  change the priority only on a loaded object, so the \<open>UPDATE\<close> carries a
  priority exactly when the object is loaded and its priority differs from the
  row's; one that does not fit 64 bits makes the \<open>UPDATE\<close> fail, with nothing
  written.
\<close>

definition flush_Task :: "clock \<Rightarrow> bool \<Rightarrow> Task \<Rightarrow> db \<Rightarrow> (error + Task) \<times> db" where
  "flush_Task clk loaded task s =
     (if loaded \<and> Task_row s (t_id task) = Some task then (Inr task, s)
      else let (now, s1) = utcnow clk s;
               task' = task\<lparr>updated_at := now\<rparr>
           in if loaded \<and> map_option priority (Task_row s (t_id task)) \<noteq> Some (priority task)
                 \<and> \<not> int64_ok (priority task)
              then (Inl OverflowError, s1)
              else (Inr task',
                    s1\<lparr>tasks := map (\<lambda>r. if t_id r = t_id task then task' else r) (tasks s1)\<rparr>))"

section \<open>Helpers (lines 131--147)\<close>

definition get_or_create_project :: "clock \<Rightarrow> string option \<Rightarrow> db \<Rightarrow> Project option \<times> db" where
  "get_or_create_project clk name s =
     (case name of
        None \<Rightarrow> (None, s)
      | Some nm \<Rightarrow>
          if nm = [] then (None, s)
          else (case find (\<lambda>p. p_name p = nm) (projects s) of
                  Some proj \<Rightarrow> (Some proj, s)
                | None \<Rightarrow> (let (proj, s1) = insert_Project clk nm s in (Some proj, s1))))"

text \<open>
  \<open>touch_task(db, task)\<close>: the task object comes with its state in the session,
  \<open>loaded\<close> (see \<open>flush_Task\<close>). It reads the clock for \<open>last_touched_at\<close>, and
  the commit reads it again for \<open>updated_at\<close> when it writes the row.
\<close>

definition touch_task :: "clock \<Rightarrow> bool \<Rightarrow> Task \<Rightarrow> db \<Rightarrow> (error + Task) \<times> db" where
  "touch_task clk loaded task s =
     (let (now, s1) = utcnow clk s
      in flush_Task clk loaded (task\<lparr>last_touched_at := now\<rparr>) s1)"

section \<open>Routes\<close>

text \<open>
  Every route returns its response, or the error it raises, and the database
  after it. \<open>post_api_tasks\<close> and \<open>post_api_notes\<close> are the routes \<open>create_task\<close>
  and \<open>create_note\<close> as a client reaches them: the body is checked against the
  schema class first. In \<open>quick_capture\<close> the commit of the snapshot note expires
  the task object before the touch; without a snapshot the object is still
  loaded.
\<close>

definition quick_capture ::
  "clock \<Rightarrow> string option \<Rightarrow> string \<Rightarrow> string \<Rightarrow> string \<Rightarrow> db \<Rightarrow> (error + Task) \<times> db" where
  "quick_capture clk project_name ttl descr na s =
     (let (proj, s1) = get_or_create_project clk project_name s
      in (case insert_Task clk ttl descr ''in_progress'' na 2 proj s1 of
            (Inl e, s2) \<Rightarrow> (Inl e, s2)
          | (Inr task, s2) \<Rightarrow>
              (let (loaded, s3) =
                     (if strip descr \<noteq> []
                      then (False, snd (insert_Note clk (t_id task) descr ''snapshot'' s2))
                      else (True, s2))
               in touch_task clk loaded task s3)))"

definition create_task :: "clock \<Rightarrow> TaskIn \<Rightarrow> db \<Rightarrow> (error + Task) \<times> db" where
  "create_task clk body s =
     (let (proj, s1) = get_or_create_project clk (in_project_name body) s
      in (case insert_Task clk (in_title body) (str_or (in_description body) [])
                 (str_or (in_status body) ''in_progress'')
                 (str_or (in_next_action body) [])
                 (int_or (in_priority body) 2) proj s1 of
            (Inl e, s2) \<Rightarrow> (Inl e, s2)
          | (Inr task, s2) \<Rightarrow> touch_task clk True task s2))"

definition post_api_tasks :: "clock \<Rightarrow> TaskIn_json \<Rightarrow> db \<Rightarrow> (error + Task) \<times> db" where
  "post_api_tasks clk j s =
     (case validate_TaskIn j of Inl e \<Rightarrow> (Inl e, s) | Inr body \<Rightarrow> create_task clk body s)"

definition get_task :: "int \<Rightarrow> db \<Rightarrow> (error + Task) \<times> db" where
  "get_task i s =
     (case query_Task_get s i of
        Inl e \<Rightarrow> (Inl e, s)
      | Inr None \<Rightarrow> (Inl (HTTPException 404 ''Task not found''), s)
      | Inr (Some task) \<Rightarrow> (Inr task, s))"

definition apply_patch :: "TaskPatch \<Rightarrow> Task \<Rightarrow> Task" where
  "apply_patch body task =
     (let t1 = (case patch_title body of None \<Rightarrow> task | Some v \<Rightarrow> task\<lparr>title := v\<rparr>);
          t2 = (case patch_description body of None \<Rightarrow> t1 | Some v \<Rightarrow> t1\<lparr>description := v\<rparr>);
          t3 = (case patch_next_action body of None \<Rightarrow> t2 | Some v \<Rightarrow> t2\<lparr>next_action := v\<rparr>);
          t4 = (case patch_priority body of None \<Rightarrow> t3 | Some v \<Rightarrow> t3\<lparr>priority := v\<rparr>)
      in (case patch_status body of None \<Rightarrow> t4 | Some v \<Rightarrow> t4\<lparr>status := v\<rparr>))"

text \<open>
  When \<open>get_or_create_project\<close> creates a project, its \<open>db.commit()\<close> also writes
  the field changes pending on the task object and expires the object. When
  that write fails, the project row of the same transaction is rolled back
  with it.
\<close>

definition update_task :: "clock \<Rightarrow> int \<Rightarrow> TaskPatch \<Rightarrow> db \<Rightarrow> (error + Task) \<times> db" where
  "update_task clk i body s =
     (case query_Task_get s i of
        Inl e \<Rightarrow> (Inl e, s)
      | Inr None \<Rightarrow> (Inl (HTTPException 404 ''Task not found''), s)
      | Inr (Some task) \<Rightarrow>
          (let t5 = apply_patch body task in
           (case patch_project_name body of
              None \<Rightarrow> touch_task clk True t5 s
            | Some nm \<Rightarrow>
                (let (proj, s1) = get_or_create_project clk (Some nm) s;
                     t6 = t5\<lparr>project_id := map_option p_id proj\<rparr>
                 in if projects s1 \<noteq> projects s
                    then (case flush_Task clk True t5 s1 of
                            (Inl e, s2) \<Rightarrow> (Inl e, s\<lparr>ticks := ticks s2\<rparr>)
                          | (Inr t, s2) \<Rightarrow> touch_task clk False t6 s2)
                    else touch_task clk True t6 s1))))"

definition create_note :: "clock \<Rightarrow> NoteIn \<Rightarrow> db \<Rightarrow> (error + Note) \<times> db" where
  "create_note clk body s =
     (case query_Task_get s (note_task_id body) of
        Inl e \<Rightarrow> (Inl e, s)
      | Inr None \<Rightarrow> (Inl (HTTPException 404 ''Task not found''), s)
      | Inr (Some task) \<Rightarrow>
          (let (note, s1) = insert_Note clk (t_id task) (note_content body)
                              (str_or (note_kind body) ''note'') s
           in (case touch_task clk False task s1 of
                 (Inl e, s2) \<Rightarrow> (Inl e, s2)
               | (Inr task', s2) \<Rightarrow> (Inr note, s2))))"

definition post_api_notes :: "clock \<Rightarrow> NoteIn_json \<Rightarrow> db \<Rightarrow> (error + Note) \<times> db" where
  "post_api_notes clk j s =
     (case validate_NoteIn j of Inl e \<Rightarrow> (Inl e, s) | Inr body \<Rightarrow> create_note clk body s)"

record ResumeOut =
  task :: Task
  latest_notes :: "Note list"

definition resume :: "db \<Rightarrow> (error + ResumeOut) \<times> db" where
  "resume s =
     (case order_by_desc_index last_touched_at
             (filter (\<lambda>t. status t \<in> set [''in_progress'', ''todo'', ''paused'']) (tasks s)) of
        [] \<Rightarrow> (Inl (HTTPException 404 ''No active tasks yet. Create one at / or POST /api/tasks.''), s)
      | t # _ \<Rightarrow>
          (Inr \<lparr>task = t,
                latest_notes = take 5 (order_by_desc n_created_at
                                  (filter (\<lambda>n. task_id n = t_id t) (notes s)))\<rparr>, s))"

text \<open>
  \<open>db.delete(task)\<close> deletes the notes of \<open>task.notes\<close> with the task
  (\<open>cascade="all, delete-orphan"\<close>, line 45), in the one commit that follows.
\<close>

definition delete_task :: "int \<Rightarrow> db \<Rightarrow> (error + Response) \<times> db" where
  "delete_task i s =
     (case query_Task_get s i of
        Inl e \<Rightarrow> (Inl e, s)
      | Inr None \<Rightarrow> (Inl (HTTPException 404 ''Task not found''), s)
      | Inr (Some t) \<Rightarrow>
          (Inr (Response 204),
           s\<lparr>notes := filter (\<lambda>n. task_id n \<noteq> t_id t) (notes s),
             tasks := filter (\<lambda>r. t_id r \<noteq> t_id t) (tasks s)\<rparr>))"

definition delete_note :: "int \<Rightarrow> db \<Rightarrow> (error + Response) \<times> db" where
  "delete_note i s =
     (case query_Note_get s i of
        Inl e \<Rightarrow> (Inl e, s)
      | Inr None \<Rightarrow> (Inl (HTTPException 404 ''Note not found''), s)
      | Inr (Some note) \<Rightarrow>
          (Inr (Response 204), s\<lparr>notes := filter (\<lambda>n. n_id n \<noteq> n_id note) (notes s)\<rparr>))"

section \<open>Projects (lines 75--76, 524--527)\<close>

record ProjectIn_json =
  j_name :: "string field"

record ProjectIn =
  in_name :: string

text \<open>\<open>name: str = Field(min_length=1, max_length=200)\<close>.\<close>

definition validate_ProjectIn :: "ProjectIn_json \<Rightarrow> error + ProjectIn" where
  "validate_ProjectIn j =
     and_then (required (j_name j)) (\<lambda>n.
       if length n < 1 \<or> 200 < length n then Inl RequestValidationError
       else Inr \<lparr>in_name = n\<rparr>)"

definition create_project :: "clock \<Rightarrow> ProjectIn \<Rightarrow> db \<Rightarrow> (error + Project option) \<times> db" where
  "create_project clk body s =
     (let (proj, s1) = get_or_create_project clk (Some (in_name body)) s in (Inr proj, s1))"

definition post_api_projects ::
  "clock \<Rightarrow> ProjectIn_json \<Rightarrow> db \<Rightarrow> (error + Project option) \<times> db" where
  "post_api_projects clk j s =
     (case validate_ProjectIn j of Inl e \<Rightarrow> (Inl e, s) | Inr body \<Rightarrow> create_project clk body s)"

section \<open>Histories of requests\<close>

text \<open>
  The requests that can change the database, and \<open>resume\<close> and \<open>get_task\<close>.
  (The listing routes only query.) A history is what a sequence of requests
  makes of the empty database. The form fields of a quick capture are taken
  as the route function receives them.
\<close>

datatype request =
    Quick_capture "string option" string string string
  | Create_project ProjectIn_json
  | Create_task TaskIn_json
  | Get_task int
  | Update_task int TaskPatch
  | Create_note NoteIn_json
  | Resume
  | Delete_task int
  | Delete_note int

fun serve :: "clock \<Rightarrow> request \<Rightarrow> db \<Rightarrow> db" where
  "serve clk (Quick_capture pn ttl descr na) s = snd (quick_capture clk pn ttl descr na s)"
| "serve clk (Create_project j) s = snd (post_api_projects clk j s)"
| "serve clk (Create_task j) s = snd (post_api_tasks clk j s)"
| "serve clk (Get_task i) s = snd (get_task i s)"
| "serve clk (Update_task i body) s = snd (update_task clk i body s)"
| "serve clk (Create_note j) s = snd (post_api_notes clk j s)"
| "serve clk Resume s = snd (resume s)"
| "serve clk (Delete_task i) s = snd (delete_task i s)"
| "serve clk (Delete_note i) s = snd (delete_note i s)"

definition history :: "clock \<Rightarrow> request list \<Rightarrow> db" where
  "history clk reqs = fold (serve clk) reqs \<lparr>projects = [], tasks = [], notes = [], ticks = 0\<rparr>"

text \<open>Activity on tasks: field updates and note creations, run in sequence.\<close>

datatype activity = Update int TaskPatch | AddNote NoteIn

fun step :: "clock \<Rightarrow> activity \<Rightarrow> db \<Rightarrow> db" where
  "step clk (Update i body) s = snd (update_task clk i body s)"
| "step clk (AddNote body) s = snd (create_note clk body s)"

definition run :: "clock \<Rightarrow> activity list \<Rightarrow> db \<Rightarrow> db" where
  "run clk acts s = fold (step clk) acts s"

definition nondecreasing :: "clock \<Rightarrow> bool" where
  "nondecreasing clk = (\<forall>i j. i \<le> j \<longrightarrow> clk i \<le> clk j)"

text \<open>No task was touched later than the clock's next reading.\<close>

definition touched_before_now :: "clock \<Rightarrow> db \<Rightarrow> bool" where
  "touched_before_now clk s = (\<forall>t\<in>set (tasks s). last_touched_at t \<le> clk (ticks s))"

section \<open>Example data\<close>

definition clk_example :: clock where
  "clk_example k = 1000 + int k"

definition db_empty :: db where
  "db_empty = \<lparr>projects = [], tasks = [], notes = [], ticks = 0\<rparr>"

definition task_A :: Task where
  "task_A = \<lparr>t_id = 1, title = ''Fix token expiry'', description = ''context'',
              status = ''in_progress'', next_action = [], priority = 2,
              project_id = Some 1, created_at = 1001, updated_at = 1009,
              last_touched_at = 1008\<rparr>"

definition task_B :: Task where
  "task_B = \<lparr>t_id = 2, title = ''Write docs'', description = [],
              status = ''done'', next_action = ''publish'', priority = 3,
              project_id = None, created_at = 1010, updated_at = 1017,
              last_touched_at = 1016\<rparr>"

definition note_1 :: Note where
  "note_1 = \<lparr>n_id = 1, task_id = 1, content = ''context'', n_created_at = 1004,
              kind = ''snapshot''\<rparr>"

definition note_2 :: Note where
  "note_2 = \<lparr>n_id = 2, task_id = 1, content = ''use 15 min TTL'', n_created_at = 1007,
              kind = ''decision''\<rparr>"

definition note_3 :: Note where
  "note_3 = \<lparr>n_id = 3, task_id = 2, content = ''draft sent'', n_created_at = 1015,
              kind = ''note''\<rparr>"

definition db_example :: db where
  "db_example = \<lparr>projects = [\<lparr>p_id = 1, p_name = ''Infra'', p_created_at = 1000\<rparr>],
                  tasks = [task_A, task_B],
                  notes = [note_1, note_2, note_3],
                  ticks = 18\<rparr>"









definition described :: TaskIn where
  "described = \<lparr>in_title = ''Fix token expiry'', in_description = ''context'',
                  in_next_action = [], in_priority = 2, in_status = ''in_progress'',
                  in_project_name = None\<rparr>"

definition rename_patch :: TaskPatch where
  "rename_patch = \<lparr>patch_title = Some ''Fix token refresh'', patch_description = None,
                     patch_next_action = None, patch_priority = None, patch_status = None,
                     patch_project_name = Some ''Platform''\<rparr>"




definition example_requests :: "request list" where
  "example_requests =
     [Quick_capture (Some ''Infra'') ''Fix token expiry'' ''context'' [],
      Create_note \<lparr>j_task_id = Value 1, j_content = Value ''use 15 min TTL'',
                   j_kind = Value ''decision''\<rparr>,
      Create_task \<lparr>j_title = Value ''Write docs'', j_description = Absent,
                   j_next_action = Value ''publish'', j_priority = Value 3,
                   j_status = Value ''done'', j_project_name = Absent\<rparr>,
      Create_note \<lparr>j_task_id = Value 2, j_content = Value ''draft sent'', j_kind = Absent\<rparr>]"

section \<open>Lookups by primary key and fresh ids\<close>

lemma find_id_Some: "find (\<lambda>r. f r = i) rows = Some x \<Longrightarrow> f x = i \<and> x \<in> set rows"
  by (induction rows) (auto split: if_splits)



lemma Task_row_Some: "Task_row s i = Some t \<Longrightarrow> t_id t = i \<and> t \<in> set (tasks s)"
  unfolding Task_row_def by (rule find_id_Some)

lemma query_Task_get_Inr: "query_Task_get s i = Inr r \<longleftrightarrow> int64_ok i \<and> Task_row s i = r"
  by (simp add: query_Task_get_def)

lemma query_Task_get_Inl: "query_Task_get s i = Inl e \<longleftrightarrow> \<not> int64_ok i \<and> e = OverflowError"
  by (auto simp: query_Task_get_def)

lemma query_Note_get_Inr: "query_Note_get s i = Inr r \<longleftrightarrow> int64_ok i \<and> Note_row s i = r"
  by (simp add: query_Note_get_def)

lemma int64_ok_small: "int64_ok 0" "int64_ok 1" "int64_ok 2" "int64_ok 3" "int64_ok 7"
  by (simp_all add: int64_ok_def)


lemma int64_ok_int_or: "int64_ok (int_or p 2) \<longleftrightarrow> int64_ok p"
  by (simp add: int_or_def int64_ok_def)

lemma next_id_fresh: "next_id ids \<notin> set ids"
proof
  assume a: "next_id ids \<in> set ids"
  then have ne: "ids \<noteq> []" by auto
  from a have "next_id ids \<le> Max (set ids)" by simp
  with ne show False by (simp add: next_id_def)
qed

lemma next_id_fresh_rows: "r \<in> set rows \<Longrightarrow> f r \<noteq> next_id (map f rows)"
  using next_id_fresh[of "map f rows"] by (metis image_eqI list.set_map)

lemma find_replace:
  assumes "f x = i"
  shows "find (\<lambda>r. f r = j) (map (\<lambda>r. if f r = i then x else r) rows) =
         (if j = i then (if find (\<lambda>r. f r = i) rows = None then None else Some x)
          else find (\<lambda>r. f r = j) rows)"
  using assms by (induction rows) auto

lemma replace_absent:
  "\<forall>r\<in>set rows. f r \<noteq> i \<Longrightarrow> map (\<lambda>r. if f r = i then x else r) rows = rows"
  by (induction rows) auto

lemma set_replace_subset:
  "set (map (\<lambda>r. if f r = i then x else r) rows) \<subseteq> set rows \<union> {x}"
  by (induction rows) auto

lemma find_append_fresh:
  "\<forall>r\<in>set rows. f r \<noteq> f x \<Longrightarrow>
   find (\<lambda>r. f r = j) (rows @ [x]) = (if j = f x then Some x else find (\<lambda>r. f r = j) rows)"
  by (induction rows) auto

section \<open>The clock, inserts and the commit of a task\<close>

lemma utcnow_eq: "utcnow clk s = (clk (ticks s), s\<lparr>ticks := Suc (ticks s)\<rparr>)"
  by (simp add: utcnow_def)

lemma insert_Task_ok:
  "int64_ok pr \<Longrightarrow>
   insert_Task clk ttl descr st na pr proj s =
     (Inr \<lparr>t_id = next_id (map t_id (tasks s)), title = ttl, description = descr,
        status = st, next_action = na, priority = pr, project_id = map_option p_id proj,
        created_at = clk (ticks s), updated_at = clk (Suc (ticks s)),
        last_touched_at = clk (Suc (Suc (ticks s)))\<rparr>,
      s\<lparr>ticks := Suc (Suc (Suc (ticks s))),
        tasks := tasks s @ [\<lparr>t_id = next_id (map t_id (tasks s)), title = ttl, description = descr,
        status = st, next_action = na, priority = pr, project_id = map_option p_id proj,
        created_at = clk (ticks s), updated_at = clk (Suc (ticks s)),
        last_touched_at = clk (Suc (Suc (ticks s)))\<rparr>]\<rparr>)"
  by (simp add: insert_Task_def utcnow_eq Let_def)

lemma insert_Task_overflow:
  "\<not> int64_ok pr \<Longrightarrow>
   insert_Task clk ttl descr st na pr proj s =
     (Inl OverflowError, s\<lparr>ticks := Suc (Suc (Suc (ticks s)))\<rparr>)"
  by (simp add: insert_Task_def utcnow_eq Let_def)

lemma insert_Note_eq:
  "insert_Note clk tid c k s =
     (\<lparr>n_id = next_id (map n_id (notes s)), task_id = tid, content = c,
        n_created_at = clk (ticks s), kind = k\<rparr>,
      s\<lparr>ticks := Suc (ticks s),
        notes := notes s @ [\<lparr>n_id = next_id (map n_id (notes s)), task_id = tid, content = c,
        n_created_at = clk (ticks s), kind = k\<rparr>]\<rparr>)"
  by (simp add: insert_Note_def utcnow_eq Let_def)

text \<open>
  The three outcomes of the commit of a task object: nothing to write, the row
  written, or the overflow of a changed priority.
\<close>

lemma flush_Task_cases:
  obtains
    (unchanged) "loaded" "Task_row s (t_id tk) = Some tk"
      "flush_Task clk loaded tk s = (Inr tk, s)"
  | (updated) "flush_Task clk loaded tk s =
       (Inr (tk\<lparr>updated_at := clk (ticks s)\<rparr>),
        s\<lparr>ticks := Suc (ticks s),
          tasks := map (\<lambda>r. if t_id r = t_id tk then tk\<lparr>updated_at := clk (ticks s)\<rparr> else r)
                     (tasks s)\<rparr>)"
  | (overflow) "loaded" "\<not> int64_ok (priority tk)"
      "map_option priority (Task_row s (t_id tk)) \<noteq> Some (priority tk)"
      "flush_Task clk loaded tk s = (Inl OverflowError, s\<lparr>ticks := Suc (ticks s)\<rparr>)"
proof (cases "loaded \<and> Task_row s (t_id tk) = Some tk")
  case True
  then show thesis by (intro unchanged) (simp_all add: flush_Task_def)
next
  case False
  show thesis
  proof (cases "loaded \<and> map_option priority (Task_row s (t_id tk)) \<noteq> Some (priority tk)
                 \<and> \<not> int64_ok (priority tk)")
    case True
    with False show thesis
      by (intro overflow) (auto simp: flush_Task_def utcnow_eq Let_def)
  next
    case nov: False
    with False show thesis
      by (intro updated) (auto simp: flush_Task_def utcnow_eq Let_def)
  qed
qed

lemma touch_task_eq:
  "touch_task clk loaded tk s =
     flush_Task clk loaded (tk\<lparr>last_touched_at := clk (ticks s)\<rparr>) (s\<lparr>ticks := Suc (ticks s)\<rparr>)"
  by (simp add: touch_task_def utcnow_eq)

lemma touch_task_cases:
  obtains
    (unchanged) "loaded" "Task_row s (t_id tk) = Some (tk\<lparr>last_touched_at := clk (ticks s)\<rparr>)"
      "touch_task clk loaded tk s =
         (Inr (tk\<lparr>last_touched_at := clk (ticks s)\<rparr>), s\<lparr>ticks := Suc (ticks s)\<rparr>)"
  | (updated) "touch_task clk loaded tk s =
       (Inr (tk\<lparr>last_touched_at := clk (ticks s), updated_at := clk (Suc (ticks s))\<rparr>),
        s\<lparr>ticks := Suc (Suc (ticks s)),
          tasks := map (\<lambda>r. if t_id r = t_id tk
                            then tk\<lparr>last_touched_at := clk (ticks s), updated_at := clk (Suc (ticks s))\<rparr>
                            else r) (tasks s)\<rparr>)"
  | (overflow) "loaded" "\<not> int64_ok (priority tk)"
      "map_option priority (Task_row s (t_id tk)) \<noteq> Some (priority tk)"
      "touch_task clk loaded tk s = (Inl OverflowError, s\<lparr>ticks := Suc (Suc (ticks s))\<rparr>)"
proof (cases rule: flush_Task_cases[of loaded "s\<lparr>ticks := Suc (ticks s)\<rparr>"
                      "tk\<lparr>last_touched_at := clk (ticks s)\<rparr>" clk])
  case unchanged
  then show thesis
    using that(1) by (simp add: touch_task_eq Task_row_def)
next
  case updated
  then show thesis
    using that(2) by (simp add: touch_task_eq)
next
  case overflow
  then show thesis
    using that(3) by (simp add: touch_task_eq Task_row_def)
qed

text \<open>What a successful commit and a successful touch do to a task that is in the table.\<close>

lemma flush_Task_result:
  assumes ex: "Task_row s (t_id tk) \<noteq> None"
    and ok: "\<not> loaded \<or> int64_ok (priority tk) \<or>
             map_option priority (Task_row s (t_id tk)) = Some (priority tk)"
  obtains u s' where
    "flush_Task clk loaded tk s = (Inr (tk\<lparr>updated_at := u\<rparr>), s')"
    "\<And>j. Task_row s' j = (if j = t_id tk then Some (tk\<lparr>updated_at := u\<rparr>) else Task_row s j)"
    "notes s' = notes s" "projects s' = projects s"
    "ticks s \<le> ticks s'" "ticks s' \<le> Suc (ticks s)"
    "set (tasks s') \<subseteq> set (tasks s) \<union> {tk\<lparr>updated_at := u\<rparr>}"
proof (cases rule: flush_Task_cases[of loaded s tk clk])
  case unchanged
  have fl: "flush_Task clk loaded tk s = (Inr (tk\<lparr>updated_at := updated_at tk\<rparr>), s)"
    using unchanged(3) by simp
  show thesis
    by (rule that[OF fl]) (use unchanged in auto)
next
  case updated
  define t2 where "t2 = tk\<lparr>updated_at := clk (ticks s)\<rparr>"
  define s2 where "s2 = s\<lparr>ticks := Suc (ticks s),
      tasks := map (\<lambda>r. if t_id r = t_id tk then t2 else r) (tasks s)\<rparr>"
  have fl: "flush_Task clk loaded tk s = (Inr (tk\<lparr>updated_at := clk (ticks s)\<rparr>), s2)"
    using updated by (simp add: t2_def s2_def)
  have id2: "t_id t2 = t_id tk" by (simp add: t2_def)
  have q: "Task_row s2 j = (if j = t_id tk then Some t2 else Task_row s j)" for j
    using ex find_replace[of t_id t2 "t_id tk" j "tasks s"] id2
    by (auto simp: s2_def Task_row_def)
  have sub: "set (tasks s2) \<subseteq> set (tasks s) \<union> {t2}"
    using set_replace_subset[of t_id "t_id tk" t2 "tasks s"] by (simp add: s2_def)
  show thesis
    by (rule that[OF fl]) (use q sub in \<open>simp_all add: t2_def s2_def\<close>)
next
  case overflow
  with ok show thesis by simp
qed

lemma touch_task_result:
  assumes ex: "Task_row s (t_id tk) \<noteq> None"
    and ok: "\<not> loaded \<or> int64_ok (priority tk) \<or>
             map_option priority (Task_row s (t_id tk)) = Some (priority tk)"
  obtains u s' where
    "touch_task clk loaded tk s = (Inr (tk\<lparr>last_touched_at := clk (ticks s), updated_at := u\<rparr>), s')"
    "\<And>j. Task_row s' j =
       (if j = t_id tk then Some (tk\<lparr>last_touched_at := clk (ticks s), updated_at := u\<rparr>)
        else Task_row s j)"
    "notes s' = notes s" "projects s' = projects s"
    "ticks s < ticks s'" "ticks s' \<le> Suc (Suc (ticks s))"
    "set (tasks s') \<subseteq> set (tasks s) \<union> {tk\<lparr>last_touched_at := clk (ticks s), updated_at := u\<rparr>}"
proof -
  define s1 where "s1 = s\<lparr>ticks := Suc (ticks s)\<rparr>"
  define t1 where "t1 = tk\<lparr>last_touched_at := clk (ticks s)\<rparr>"
  have tt: "touch_task clk loaded tk s = flush_Task clk loaded t1 s1"
    by (simp add: touch_task_eq s1_def t1_def)
  have g1: "Task_row s1 j = Task_row s j" for j
    by (simp add: s1_def Task_row_def)
  have ex1: "Task_row s1 (t_id t1) \<noteq> None" using ex by (simp add: g1 t1_def)
  have ok1: "\<not> loaded \<or> int64_ok (priority t1) \<or>
             map_option priority (Task_row s1 (t_id t1)) = Some (priority t1)"
    using ok by (simp add: g1 t1_def)
  show thesis
  proof (cases rule: flush_Task_result[OF ex1 ok1, of clk])
    case (1 u s')
    have r: "touch_task clk loaded tk s =
               (Inr (tk\<lparr>last_touched_at := clk (ticks s), updated_at := u\<rparr>), s')"
      using tt 1(1) by (simp add: t1_def)
    show thesis
      by (rule that[OF r]) (use 1 g1 in \<open>simp_all add: t1_def s1_def\<close>)
  qed
qed

lemma get_or_create_project_effect:
  obtains proj s1 where
    "get_or_create_project clk name s = (proj, s1)"
    "tasks s1 = tasks s" "notes s1 = notes s"
    "(s1 = s) \<or> (ticks s1 = Suc (ticks s) \<and> (\<exists>p. projects s1 = projects s @ [p]))"
    "\<And>j. Task_row s1 j = Task_row s j"
proof (cases "get_or_create_project clk name s")
  case (Pair proj s1)
  have a: "tasks s1 = tasks s \<and> notes s1 = notes s \<and>
        ((s1 = s) \<or> (ticks s1 = Suc (ticks s) \<and> (\<exists>p. projects s1 = projects s @ [p])))"
    using Pair
    by (auto simp: get_or_create_project_def insert_Project_def utcnow_eq Let_def
             split: option.splits if_splits)
  then have "Task_row s1 j = Task_row s j" for j
    by (simp add: Task_row_def)
  with a Pair show thesis by (intro that[of proj s1]) auto
qed

lemma get_or_create_project_ticks:
  "get_or_create_project clk name s = (proj, s1) \<Longrightarrow> ticks s \<le> ticks s1"
  by (rule get_or_create_project_effect[of clk name s]) auto

section \<open>What the schemas accept\<close>



















section \<open>Effects of the routes\<close>

lemma create_note_effect:
  assumes g: "Task_row s (note_task_id body) = Some tk" and r: "int64_ok (note_task_id body)"
  obtains nt s' where
    "create_note clk body s = (Inr nt, s')"
    "nt = \<lparr>n_id = next_id (map n_id (notes s)), task_id = note_task_id body,
             content = note_content body, n_created_at = clk (ticks s),
             kind = str_or (note_kind body) ''note''\<rparr>"
    "notes s' = notes s @ [nt]" "projects s' = projects s"
    "ticks s' = Suc (Suc (Suc (ticks s)))"
    "\<And>j. Task_row s' j =
       (if j = note_task_id body
        then Some (tk\<lparr>last_touched_at := clk (Suc (ticks s)), updated_at := clk (Suc (Suc (ticks s)))\<rparr>)
        else Task_row s j)"
    "set (tasks s') \<subseteq> set (tasks s) \<union>
       {tk\<lparr>last_touched_at := clk (Suc (ticks s)), updated_at := clk (Suc (Suc (ticks s)))\<rparr>}"
proof -
  from g have ti: "t_id tk = note_task_id body" by (simp add: Task_row_Some)
  define nt where "nt = \<lparr>n_id = next_id (map n_id (notes s)), task_id = note_task_id body,
             content = note_content body, n_created_at = clk (ticks s),
             kind = str_or (note_kind body) ''note''\<rparr>"
  define s1 where "s1 = s\<lparr>ticks := Suc (ticks s), notes := notes s @ [nt]\<rparr>"
  define tk' where "tk' = tk\<lparr>last_touched_at := clk (Suc (ticks s)),
                               updated_at := clk (Suc (Suc (ticks s)))\<rparr>"
  have ins: "insert_Note clk (t_id tk) (note_content body) (str_or (note_kind body) ''note'') s = (nt, s1)"
    by (simp add: insert_Note_eq nt_def s1_def ti)
  have q1: "Task_row s1 j = Task_row s j" for j
    by (simp add: s1_def Task_row_def)
  have i': "t_id tk' = t_id tk" by (simp add: tk'_def)
  show thesis
  proof (cases rule: touch_task_cases[of False s1 tk clk])
    case unchanged
    then show thesis by simp
  next
    case overflow
    then show thesis by simp
  next
    case updated
    define s' where "s' = s1\<lparr>ticks := Suc (Suc (ticks s1)),
          tasks := map (\<lambda>r. if t_id r = t_id tk then tk' else r) (tasks s1)\<rparr>"
    have t: "touch_task clk False tk s1 = (Inr tk', s')"
      using updated by (simp add: s'_def tk'_def s1_def)
    have cn: "create_note clk body s = (Inr nt, s')"
      using g r ins t by (simp add: create_note_def query_Task_get_def)
    have q: "Task_row s' j = (if j = note_task_id body then Some tk' else Task_row s j)" for j
      using g find_replace[of t_id tk' "t_id tk" j "tasks s"] i' ti
      by (auto simp: s'_def s1_def Task_row_def)
    have sub: "set (tasks s') \<subseteq> set (tasks s) \<union> {tk'}"
      using set_replace_subset[of t_id "t_id tk" tk' "tasks s"] by (simp add: s'_def s1_def)
    show thesis
    proof (rule that[of nt s'])
      show "create_note clk body s = (Inr nt, s')" by (rule cn)
      show "nt = \<lparr>n_id = next_id (map n_id (notes s)), task_id = note_task_id body,
             content = note_content body, n_created_at = clk (ticks s),
             kind = str_or (note_kind body) ''note''\<rparr>" by (rule nt_def)
      show "notes s' = notes s @ [nt]" by (simp add: s'_def s1_def)
      show "projects s' = projects s" by (simp add: s'_def s1_def)
      show "ticks s' = Suc (Suc (Suc (ticks s)))" by (simp add: s'_def s1_def)
      show "Task_row s' j =
         (if j = note_task_id body
          then Some (tk\<lparr>last_touched_at := clk (Suc (ticks s)), updated_at := clk (Suc (Suc (ticks s)))\<rparr>)
          else Task_row s j)" for j
        using q[of j] by (simp add: tk'_def)
      show "set (tasks s') \<subseteq> set (tasks s) \<union>
         {tk\<lparr>last_touched_at := clk (Suc (ticks s)), updated_at := clk (Suc (Suc (ticks s)))\<rparr>}"
        using sub by (simp add: tk'_def)
    qed
  qed
qed

text \<open>What \<open>create_task\<close> does, given how the project name resolves.\<close>

lemma create_task_effect:
  assumes p: "get_or_create_project clk (in_project_name body) s = (proj, s1)"
    and r: "int64_ok (in_priority body)"
  obtains tk' s' where
    "create_task clk body s = (Inr tk', s')"
    "tasks s' = tasks s @ [tk']" "notes s' = notes s" "projects s' = projects s1"
    "t_id tk' = next_id (map t_id (tasks s))"
    "title tk' = in_title body"
    "description tk' = str_or (in_description body) []"
    "status tk' = str_or (in_status body) ''in_progress''"
    "next_action tk' = str_or (in_next_action body) []"
    "priority tk' = int_or (in_priority body) 2"
    "project_id tk' = map_option p_id proj"
    "created_at tk' = clk (ticks s1)"
    "last_touched_at tk' = clk (ticks s1 + 3)"
    "(updated_at tk' = clk (ticks s1 + 4) \<and> ticks s' = ticks s1 + 5) \<or>
     (updated_at tk' = clk (ticks s1 + 1) \<and> ticks s' = ticks s1 + 4 \<and>
      clk (ticks s1 + 3) = clk (ticks s1 + 2))"
proof -
  have ts: "tasks s1 = tasks s" and ns: "notes s1 = notes s"
    by (rule get_or_create_project_effect[of clk "in_project_name body" s]; use p in simp)+
  define t0 where "t0 = \<lparr>t_id = next_id (map t_id (tasks s)), title = in_title body,
      description = str_or (in_description body) [],
      status = str_or (in_status body) ''in_progress'',
      next_action = str_or (in_next_action body) [],
      priority = int_or (in_priority body) 2, project_id = map_option p_id proj,
      created_at = clk (ticks s1), updated_at = clk (Suc (ticks s1)),
      last_touched_at = clk (Suc (Suc (ticks s1)))\<rparr>"
  define s2 where "s2 = s1\<lparr>ticks := Suc (Suc (Suc (ticks s1))), tasks := tasks s @ [t0]\<rparr>"
  have ins: "insert_Task clk (in_title body) (str_or (in_description body) [])
               (str_or (in_status body) ''in_progress'') (str_or (in_next_action body) [])
               (int_or (in_priority body) 2) proj s1 = (Inr t0, s2)"
    using r by (simp add: insert_Task_ok int64_ok_int_or t0_def s2_def ts)
  have ct: "create_task clk body s = touch_task clk True t0 s2"
    using p ins by (simp add: create_task_def)
  have fresh: "\<forall>r\<in>set (tasks s). t_id r \<noteq> t_id t0"
    by (simp add: t0_def next_id_fresh_rows)
  have q2: "Task_row s2 (t_id t0) = Some t0"
    using find_append_fresh[OF fresh, of "t_id t0"] by (simp add: Task_row_def s2_def)
  show thesis
  proof (cases rule: touch_task_cases[of True s2 t0 clk])
    case unchanged
    from unchanged(2) q2 have eq: "t0\<lparr>last_touched_at := clk (ticks s2)\<rparr> = t0" by simp
    then have "last_touched_at (t0\<lparr>last_touched_at := clk (ticks s2)\<rparr>) = last_touched_at t0" by simp
    then have c: "clk (ticks s1 + 3) = clk (ticks s1 + 2)" by (simp add: s2_def t0_def eval_nat_numeral)
    have r: "create_task clk body s = (Inr t0, s2\<lparr>ticks := Suc (ticks s2)\<rparr>)"
      using ct unchanged(3) eq by simp
    show thesis
      by (rule that[OF r]) (use c in \<open>simp_all add: s2_def t0_def ns eval_nat_numeral\<close>)
  next
    case updated
    define t3 where "t3 = t0\<lparr>last_touched_at := clk (ticks s2), updated_at := clk (Suc (ticks s2))\<rparr>"
    have rep: "map (\<lambda>r. if t_id r = t_id t0 then t3 else r) (tasks s2) = tasks s @ [t3]"
      using replace_absent[OF fresh, of t3] by (simp add: s2_def)
    have r: "create_task clk body s = (Inr t3, s2\<lparr>ticks := Suc (Suc (ticks s2)), tasks := tasks s @ [t3]\<rparr>)"
      using ct updated[folded t3_def] rep by simp
    show thesis
      by (rule that[OF r]) (simp_all add: s2_def t0_def t3_def ns eval_nat_numeral)
  next
    case overflow
    with q2 show thesis by simp
  qed
qed

text \<open>A priority that does not fit 64 bits: the insert fails and no table changes after
  the project is resolved.\<close>

lemma create_task_overflow:
  assumes p: "get_or_create_project clk (in_project_name body) s = (proj, s1)"
    and r: "\<not> int64_ok (in_priority body)"
  shows "create_task clk body s = (Inl OverflowError, s1\<lparr>ticks := Suc (Suc (Suc (ticks s1)))\<rparr>)"
  using p r by (simp add: create_task_def insert_Task_overflow int64_ok_int_or)

lemma create_task_notes: "notes (snd (create_task clk body s)) = notes s"
proof -
  obtain proj s1 where p: "get_or_create_project clk (in_project_name body) s = (proj, s1)"
    by (cases "get_or_create_project clk (in_project_name body) s")
  have ns: "notes s1 = notes s"
    by (rule get_or_create_project_effect[of clk "in_project_name body" s]) (use p in simp)
  show ?thesis
  proof (cases "int64_ok (in_priority body)")
    case True
    show ?thesis by (cases rule: create_task_effect[OF p True]) simp
  next
    case False
    then show ?thesis using create_task_overflow[OF p False] ns by simp
  qed
qed

lemma dropWhile_all: "(\<forall>c\<in>set (dropWhile P x). P c) \<longleftrightarrow> (\<forall>c\<in>set x. P c)"
proof
  assume a: "\<forall>c\<in>set (dropWhile P x). P c"
  have "set x = set (takeWhile P x) \<union> set (dropWhile P x)"
    by (metis set_append takeWhile_dropWhile_id)
  with a show "\<forall>c\<in>set x. P c" by (auto dest: set_takeWhileD)
next
  assume "\<forall>c\<in>set x. P c"
  then show "\<forall>c\<in>set (dropWhile P x). P c" by (auto dest: set_dropWhileD)
qed

lemma strip_nonempty_iff: "strip x \<noteq> [] \<longleftrightarrow> (\<exists>c\<in>set x. \<not> py_isspace c)"
proof -
  have "strip x = [] \<longleftrightarrow> (\<forall>c\<in>set (dropWhile py_isspace x). py_isspace c)"
    by (simp add: strip_def dropWhile_eq_Nil_conv)
  then show ?thesis by (simp add: dropWhile_all)
qed

lemma py_isspace_space: "py_isspace CHR '' ''"
  by (simp add: py_isspace_def)

lemma not_py_isspace_c: "\<not> py_isspace CHR ''c''"
  by (simp add: py_isspace_def)

lemma quick_capture_effect:
  assumes p: "get_or_create_project clk pn s = (proj, s1)"
  obtains tk' s' where
    "quick_capture clk pn ttl descr na s = (Inr tk', s')"
    "tasks s' = tasks s @ [tk']" "projects s' = projects s1"
    "t_id tk' = next_id (map t_id (tasks s))"
    "title tk' = ttl" "description tk' = descr" "status tk' = ''in_progress''"
    "next_action tk' = na" "priority tk' = 2" "project_id tk' = map_option p_id proj"
    "created_at tk' = clk (ticks s1)"
    "notes s' = (if strip descr \<noteq> []
                 then notes s @ [\<lparr>n_id = next_id (map n_id (notes s)), task_id = t_id tk',
                                   content = descr, n_created_at = clk (ticks s1 + 3),
                                   kind = ''snapshot''\<rparr>]
                 else notes s)"
    "last_touched_at tk' = clk (ticks s1 + (if strip descr \<noteq> [] then 4 else 3))"
    "ticks s1 + (if strip descr \<noteq> [] then 4 else 3) < ticks s'"
proof -
  have ts: "tasks s1 = tasks s" and ns: "notes s1 = notes s"
    by (rule get_or_create_project_effect[of clk pn s]; use p in simp)+
  define t0 where "t0 = \<lparr>t_id = next_id (map t_id (tasks s)), title = ttl,
      description = descr, status = ''in_progress'', next_action = na,
      priority = 2, project_id = map_option p_id proj,
      created_at = clk (ticks s1), updated_at = clk (Suc (ticks s1)),
      last_touched_at = clk (Suc (Suc (ticks s1)))\<rparr>"
  define s2 where "s2 = s1\<lparr>ticks := Suc (Suc (Suc (ticks s1))), tasks := tasks s @ [t0]\<rparr>"
  have ins: "insert_Task clk ttl descr ''in_progress'' na 2 proj s1 = (Inr t0, s2)"
    by (simp add: insert_Task_ok int64_ok_small t0_def s2_def ts)
  define loaded where "loaded = (strip descr = [])"
  define sn where "sn = \<lparr>n_id = next_id (map n_id (notes s)), task_id = t_id t0,
                          content = descr, n_created_at = clk (ticks s1 + 3), kind = ''snapshot''\<rparr>"
  define s3 where "s3 = (if strip descr \<noteq> []
                         then s2\<lparr>ticks := Suc (ticks s2), notes := notes s @ [sn]\<rparr> else s2)"
  have s3: "(if strip descr \<noteq> []
              then (False, snd (insert_Note clk (t_id t0) descr ''snapshot'' s2))
              else (True, s2)) = (loaded, s3)"
    by (simp add: insert_Note_eq s3_def loaded_def sn_def s2_def ns eval_nat_numeral)
  have qc: "quick_capture clk pn ttl descr na s = touch_task clk loaded t0 s3"
  proof (cases "strip descr = []")
    case True
    with s3 have "loaded = True" "s3 = s2" by simp_all
    with True p ins show ?thesis by (simp add: quick_capture_def)
  next
    case False
    with s3 have "loaded = False" "s3 = snd (insert_Note clk (t_id t0) descr ''snapshot'' s2)"
      by simp_all
    with False p ins show ?thesis by (simp add: quick_capture_def)
  qed
  have fresh: "\<forall>r\<in>set (tasks s). t_id r \<noteq> t_id t0"
    by (simp add: t0_def next_id_fresh_rows)
  have t3: "tasks s3 = tasks s @ [t0]" by (simp add: s3_def s2_def)
  have q3: "Task_row s3 (t_id t0) = Some t0"
    using find_append_fresh[OF fresh, of "t_id t0"] by (simp add: Task_row_def t3)
  have k3: "ticks s3 = ticks s1 + (if strip descr \<noteq> [] then 4 else 3)"
    by (simp add: s3_def s2_def)
  have n3: "notes s3 = (if strip descr \<noteq> [] then notes s @ [sn] else notes s)"
    by (simp add: s3_def s2_def ns)
  have p3: "projects s3 = projects s1" by (simp add: s3_def s2_def)
  show thesis
  proof (cases rule: touch_task_cases[of loaded s3 t0 clk])
    case unchanged
    from unchanged(2) q3 have eq: "t0\<lparr>last_touched_at := clk (ticks s3)\<rparr> = t0" by simp
    have r: "quick_capture clk pn ttl descr na s =
               (Inr (t0\<lparr>last_touched_at := clk (ticks s3)\<rparr>), s3\<lparr>ticks := Suc (ticks s3)\<rparr>)"
      using qc unchanged(3) by simp
    show thesis
    proof (rule that[OF r])
      show "tasks (s3\<lparr>ticks := Suc (ticks s3)\<rparr>) = tasks s @ [t0\<lparr>last_touched_at := clk (ticks s3)\<rparr>]"
        using t3 eq by simp
    qed (simp_all add: t0_def n3 k3 p3 sn_def)
  next
    case updated
    define t4 where "t4 = t0\<lparr>last_touched_at := clk (ticks s3), updated_at := clk (Suc (ticks s3))\<rparr>"
    have rep: "map (\<lambda>r. if t_id r = t_id t0 then t4 else r) (tasks s3) = tasks s @ [t4]"
      using replace_absent[OF fresh, of t4] by (simp add: t3)
    have r: "quick_capture clk pn ttl descr na s =
               (Inr t4, s3\<lparr>ticks := Suc (Suc (ticks s3)), tasks := tasks s @ [t4]\<rparr>)"
      using qc updated[folded t4_def] rep by simp
    show thesis
      by (rule that[OF r]) (simp_all add: t0_def t4_def n3 k3 p3 sn_def)
  next
    case overflow
    then show thesis by (simp add: t0_def int64_ok_small)
  qed
qed

lemma apply_patch_fields:
  "t_id (apply_patch body tk) = t_id tk"
  "created_at (apply_patch body tk) = created_at tk"
  "updated_at (apply_patch body tk) = updated_at tk"
  "last_touched_at (apply_patch body tk) = last_touched_at tk"
  "project_id (apply_patch body tk) = project_id tk"
  "title (apply_patch body tk) = (case patch_title body of None \<Rightarrow> title tk | Some v \<Rightarrow> v)"
  "description (apply_patch body tk) =
     (case patch_description body of None \<Rightarrow> description tk | Some v \<Rightarrow> v)"
  "next_action (apply_patch body tk) =
     (case patch_next_action body of None \<Rightarrow> next_action tk | Some v \<Rightarrow> v)"
  "priority (apply_patch body tk) = (case patch_priority body of None \<Rightarrow> priority tk | Some v \<Rightarrow> v)"
  "status (apply_patch body tk) = (case patch_status body of None \<Rightarrow> status tk | Some v \<Rightarrow> v)"
  by (simp_all add: apply_patch_def Let_def split: option.splits)

lemma flush_Task_overflow:
  assumes "loaded" "\<not> int64_ok (priority tk)"
    "map_option priority (Task_row s (t_id tk)) \<noteq> Some (priority tk)"
  shows "flush_Task clk loaded tk s = (Inl OverflowError, s\<lparr>ticks := Suc (ticks s)\<rparr>)"
  using assms by (auto simp: flush_Task_def utcnow_eq Let_def)

lemma touch_task_overflow:
  assumes "loaded" "\<not> int64_ok (priority tk)"
    "map_option priority (Task_row s (t_id tk)) \<noteq> Some (priority tk)"
  shows "touch_task clk loaded tk s = (Inl OverflowError, s\<lparr>ticks := Suc (Suc (ticks s))\<rparr>)"
  using assms by (simp add: touch_task_eq flush_Task_overflow Task_row_def)

text \<open>
  What \<open>update_task\<close> does to a task that is in the table: it writes the patched
  row, or it fails on a new priority that does not fit 64 bits and leaves the
  tables as they were.
\<close>

lemma update_task_outcome:
  assumes g: "Task_row s i = Some tk" and r: "int64_ok i"
  obtains
    (ok) u s' k where
      "update_task clk i body s =
         (Inr ((apply_patch body tk)\<lparr>project_id :=
             (case patch_project_name body of None \<Rightarrow> project_id tk
              | Some nm \<Rightarrow> map_option p_id (fst (get_or_create_project clk (Some nm) s))),
           last_touched_at := clk k, updated_at := u\<rparr>), s')"
      "\<And>j. Task_row s' j =
         (if j = i then Some ((apply_patch body tk)\<lparr>project_id :=
             (case patch_project_name body of None \<Rightarrow> project_id tk
              | Some nm \<Rightarrow> map_option p_id (fst (get_or_create_project clk (Some nm) s))),
           last_touched_at := clk k, updated_at := u\<rparr>) else Task_row s j)"
      "notes s' = notes s"
      "ticks s \<le> k" "k < ticks s'"
      "patch_project_name body = None \<Longrightarrow> projects s' = projects s"
      "\<And>r. r \<in> set (tasks s') \<Longrightarrow>
          r \<in> set (tasks s) \<or> last_touched_at r = clk k \<or> last_touched_at r = last_touched_at tk"
      "int64_ok (priority (apply_patch body tk)) \<or> priority (apply_patch body tk) = priority tk"
  | (overflow) s' where
      "update_task clk i body s = (Inl OverflowError, s')"
      "tasks s' = tasks s" "notes s' = notes s" "projects s' = projects s"
      "ticks s \<le> ticks s'"
      "\<not> int64_ok (priority (apply_patch body tk))"
      "priority (apply_patch body tk) \<noteq> priority tk"
proof -
  from g have ti: "t_id tk = i" by (simp add: Task_row_Some)
  define t5 where "t5 = apply_patch body tk"
  have i5: "t_id t5 = i" by (simp add: t5_def apply_patch_fields ti)
  have p5: "project_id t5 = project_id tk" by (simp add: t5_def apply_patch_fields)
  have l5: "last_touched_at t5 = last_touched_at tk" by (simp add: t5_def apply_patch_fields)
  have qg: "query_Task_get s i = Inr (Some tk)" using g r by (simp add: query_Task_get_def)
  show thesis
  proof (cases "\<not> int64_ok (priority t5) \<and> priority t5 \<noteq> priority tk")
    case bad: True
    then have wr: "map_option priority (Task_row s (t_id u)) \<noteq> Some (priority u)"
      if "t_id u = i" "priority u = priority t5" for u
      using that g by simp
    show thesis
    proof (cases "patch_project_name body")
      case None
      have "update_task clk i body s = (Inl OverflowError, s\<lparr>ticks := Suc (Suc (ticks s))\<rparr>)"
        using qg None touch_task_overflow[of True t5 s clk] bad wr[of t5] i5
        by (simp add: update_task_def t5_def[symmetric])
      then show thesis
        by (rule overflow) (use bad in \<open>simp_all add: t5_def\<close>)
    next
      case (Some nm)
      obtain proj s1 where p: "get_or_create_project clk (Some nm) s = (proj, s1)"
        by (cases "get_or_create_project clk (Some nm) s")
      have e1: "tasks s1 = tasks s" "notes s1 = notes s" "ticks s \<le> ticks s1"
        "\<And>j. Task_row s1 j = Task_row s j"
        by (rule get_or_create_project_effect[of clk "Some nm" s]; use p in auto)+
      define t6 where "t6 = t5\<lparr>project_id := map_option p_id proj\<rparr>"
      show thesis
      proof (cases "projects s1 \<noteq> projects s")
        case True
        have fl: "flush_Task clk True t5 s1 = (Inl OverflowError, s1\<lparr>ticks := Suc (ticks s1)\<rparr>)"
          using flush_Task_overflow[of True t5 s1 clk] bad wr[of t5] i5 e1(4) by simp
        have "update_task clk i body s = (Inl OverflowError, s\<lparr>ticks := Suc (ticks s1)\<rparr>)"
          using qg Some p True fl by (simp add: update_task_def t5_def[symmetric])
        then show thesis
          by (rule overflow) (use bad e1(3) in \<open>simp_all add: t5_def\<close>)
      next
        case False
        have "touch_task clk True t6 s1 = (Inl OverflowError, s1\<lparr>ticks := Suc (Suc (ticks s1))\<rparr>)"
          using touch_task_overflow[of True t6 s1 clk] bad wr[of t6] i5 e1(4) by (simp add: t6_def)
        then have "update_task clk i body s = (Inl OverflowError, s1\<lparr>ticks := Suc (Suc (ticks s1))\<rparr>)"
          using qg Some p False by (simp add: update_task_def t5_def[symmetric] t6_def[symmetric])
        then show thesis
          by (rule overflow) (use bad e1 False in \<open>simp_all add: t5_def\<close>)
      qed
    qed
  next
    case good: False
    then have okp: "int64_ok (priority t5) \<or> priority t5 = priority tk" by auto
    have okc: "\<not> loaded \<or> int64_ok (priority t5) \<or>
               map_option priority (Task_row s0 (t_id t5)) = Some (priority t5)"
      if "Task_row s0 i = Some tk" for loaded s0
      using that okp i5 by auto
    show thesis
    proof (cases "patch_project_name body")
      case None
      have ex: "Task_row s (t_id t5) \<noteq> None" using g i5 by simp
      have same: "t5\<lparr>project_id := project_id tk\<rparr> = t5" using p5 by (cases t5) simp
      show thesis
      proof (cases rule: touch_task_result[OF ex okc[OF g, of True], of clk])
        case (1 u s')
        have res: "update_task clk i body s =
                   (Inr (t5\<lparr>project_id := project_id tk, last_touched_at := clk (ticks s),
                            updated_at := u\<rparr>), s')"
          using qg None 1(1) by (simp add: update_task_def t5_def[symmetric] same)
        show thesis
        proof (rule ok[where k="ticks s" and u=u and s'=s'])
          show "update_task clk i body s =
           (Inr ((apply_patch body tk)\<lparr>project_id :=
             (case patch_project_name body of None \<Rightarrow> project_id tk
              | Some nm \<Rightarrow> map_option p_id (fst (get_or_create_project clk (Some nm) s))),
             last_touched_at := clk (ticks s), updated_at := u\<rparr>), s')"
            using res None by (simp add: t5_def)
          show "Task_row s' j =
           (if j = i then Some ((apply_patch body tk)\<lparr>project_id :=
             (case patch_project_name body of None \<Rightarrow> project_id tk
              | Some nm \<Rightarrow> map_option p_id (fst (get_or_create_project clk (Some nm) s))),
             last_touched_at := clk (ticks s), updated_at := u\<rparr>) else Task_row s j)" for j
            using 1(2)[of j] i5 None same by (simp add: t5_def[symmetric])
          show "r \<in> set (tasks s) \<or> last_touched_at r = clk (ticks s) \<or>
                last_touched_at r = last_touched_at tk" if "r \<in> set (tasks s')" for r
            using that 1(7) by auto
          show "int64_ok (priority (apply_patch body tk)) \<or>
                priority (apply_patch body tk) = priority tk"
            using okp by (simp add: t5_def)
        qed (use 1 in simp_all)
      qed
    next
      case (Some nm)
      obtain proj s1 where p: "get_or_create_project clk (Some nm) s = (proj, s1)"
        by (cases "get_or_create_project clk (Some nm) s")
      have e1: "tasks s1 = tasks s" "notes s1 = notes s" "ticks s \<le> ticks s1"
        "\<And>j. Task_row s1 j = Task_row s j"
        by (rule get_or_create_project_effect[of clk "Some nm" s]; use p in auto)+
      define t6 where "t6 = t5\<lparr>project_id := map_option p_id proj\<rparr>"
      have i6: "t_id t6 = i" by (simp add: t6_def i5)
      have pj: "(case patch_project_name body of None \<Rightarrow> project_id tk
            | Some nm \<Rightarrow> map_option p_id (fst (get_or_create_project clk (Some nm) s)))
            = map_option p_id proj"
        using Some p by simp
      obtain s2 ld where mid:
        "update_task clk i body s = touch_task clk ld t6 s2"
        "notes s2 = notes s" "ticks s \<le> ticks s2" "Task_row s2 i \<noteq> None"
        "\<And>j. j \<noteq> i \<Longrightarrow> Task_row s2 j = Task_row s j"
        "\<And>r. r \<in> set (tasks s2) \<Longrightarrow> r \<in> set (tasks s) \<or> last_touched_at r = last_touched_at tk"
        "\<not> ld \<or> Task_row s2 i = Some tk"
      proof (cases "projects s1 \<noteq> projects s")
        case False
        have "update_task clk i body s = touch_task clk True t6 s1"
          using qg Some p False by (simp add: update_task_def t5_def[symmetric] t6_def[symmetric])
        then show thesis
          by (rule that) (use e1 g in simp_all)
      next
        case True
        have ex1: "Task_row s1 (t_id t5) \<noteq> None" using g i5 e1(4) by simp
        have g1: "Task_row s1 i = Some tk" using g e1(4) by simp
        show thesis
        proof (cases rule: flush_Task_result[OF ex1 okc[OF g1, of True], of clk])
          case (1 u s')
          have "update_task clk i body s = touch_task clk False t6 s'"
            using qg Some p True 1(1)
            by (simp add: update_task_def t5_def[symmetric] t6_def[symmetric])
          then show thesis
          proof (rule that)
            show "r \<in> set (tasks s) \<or> last_touched_at r = last_touched_at tk"
              if "r \<in> set (tasks s')" for r
              using that 1(7) e1(1) l5 by auto
          qed (use 1 e1 i5 in simp_all)
        qed
      qed
      have ex2: "Task_row s2 (t_id t6) \<noteq> None" using mid(4) i6 by simp
      have ok2: "\<not> ld \<or> int64_ok (priority t6) \<or>
                 map_option priority (Task_row s2 (t_id t6)) = Some (priority t6)"
        using mid(7) okp i6 by (auto simp: t6_def)
      show thesis
      proof (cases rule: touch_task_result[OF ex2 ok2, of clk])
        case (1 u s')
        have res: "update_task clk i body s =
                   (Inr (t6\<lparr>last_touched_at := clk (ticks s2), updated_at := u\<rparr>), s')"
          using mid(1) 1(1) by simp
        show thesis
        proof (rule ok[where k="ticks s2" and u=u and s'=s'])
          show "update_task clk i body s =
           (Inr ((apply_patch body tk)\<lparr>project_id :=
             (case patch_project_name body of None \<Rightarrow> project_id tk
              | Some nm \<Rightarrow> map_option p_id (fst (get_or_create_project clk (Some nm) s))),
             last_touched_at := clk (ticks s2), updated_at := u\<rparr>), s')"
            using res unfolding pj by (simp add: t6_def t5_def)
          show "Task_row s' j =
           (if j = i then Some ((apply_patch body tk)\<lparr>project_id :=
             (case patch_project_name body of None \<Rightarrow> project_id tk
              | Some nm \<Rightarrow> map_option p_id (fst (get_or_create_project clk (Some nm) s))),
             last_touched_at := clk (ticks s2), updated_at := u\<rparr>) else Task_row s j)" for j
            using 1(2)[of j] i6 mid(5)[of j] unfolding pj by (simp add: t6_def t5_def)
          show "notes s' = notes s" using 1(3) mid(2) by simp
          show "ticks s \<le> ticks s2" using mid(3) .
          show "ticks s2 < ticks s'" using 1(5) .
          show "projects s' = projects s" if "patch_project_name body = None"
            using that Some by simp
          show "r \<in> set (tasks s) \<or> last_touched_at r = clk (ticks s2) \<or>
                last_touched_at r = last_touched_at tk" if "r \<in> set (tasks s')" for r
            using that 1(7) mid(6)[of r] by auto
          show "int64_ok (priority (apply_patch body tk)) \<or>
                priority (apply_patch body tk) = priority tk"
            using okp by (simp add: t5_def)
        qed
      qed
    qed
  qed
qed

section \<open>Ordered queries\<close>

lemma order_by_desc_sorted:
  "sorted_wrt (\<lambda>a b. f b \<le> f a) (order_by_desc f xs)"
proof -
  have "sorted (map (\<lambda>x. - f x) (sort_key (\<lambda>x. - f x) xs))" by (rule sorted_sort_key)
  then show ?thesis by (simp add: order_by_desc_def sorted_wrt_map)
qed

lemma order_by_desc_mset: "mset (order_by_desc f xs) = mset xs"
  by (simp add: order_by_desc_def)

lemma order_by_desc_index_sorted:
  "sorted_wrt (\<lambda>a b. f b \<le> f a) (order_by_desc_index f xs)"
proof -
  have "sorted (map f (sort_key f xs))" by (rule sorted_sort_key)
  then have "sorted_wrt (\<lambda>a b. f a \<le> f b) (sort_key f xs)" by (simp add: sorted_wrt_map)
  then show ?thesis by (simp add: order_by_desc_index_def sorted_wrt_rev)
qed

lemma order_by_desc_index_set: "set (order_by_desc_index f xs) = set xs"
  by (simp add: order_by_desc_index_def)

section \<open>The example database\<close>

lemma history_example: "history clk_example example_requests = db_example"
  by (simp add: history_def example_requests_def db_example_def task_A_def task_B_def
        note_1_def note_2_def note_3_def
        quick_capture_def post_api_notes_def post_api_tasks_def validate_NoteIn_def
        validate_TaskIn_def create_note_def create_task_def get_or_create_project_def
        insert_Project_def insert_Task_def insert_Note_def utcnow_def touch_task_def
        flush_Task_def query_Task_get_def Task_row_def int64_ok_def next_id_def strip_def
        py_isspace_def str_or_def int_or_def clk_example_def Let_def)

lemma nondecreasing_clk_example: "nondecreasing clk_example"
  by (simp add: nondecreasing_def clk_example_def)

lemma db_example_row_1: "Task_row db_example 1 = Some task_A"
  by (simp add: Task_row_def db_example_def task_A_def)

lemma db_example_get_1: "query_Task_get db_example 1 = Inr (Some task_A)"
  by (simp add: query_Task_get_def int64_ok_def db_example_row_1)



lemma db_example_get_big: "query_Task_get db_example (2 ^ 63) = Inl OverflowError"
  by (simp add: query_Task_get_def int64_ok_def)

lemma resume_db_example:
  "resume db_example = (Inr \<lparr>task = task_A, latest_notes = [note_2, note_1]\<rparr>, db_example)"
  by (simp add: resume_def db_example_def task_A_def task_B_def note_1_def note_2_def note_3_def
        order_by_desc_def order_by_desc_index_def)

lemma run_example_before:
  "query_Task_get (run clk_example [AddNote \<lparr>note_task_id = 1, note_content = ''rotate keys'',
                                            note_kind = ''note''\<rparr>] db_example) 1 =
     Inr (Some (task_A\<lparr>last_touched_at := 1019, updated_at := 1020\<rparr>))"
  by (simp add: run_def create_note_def query_Task_get_def Task_row_def int64_ok_def
        db_example_def task_A_def task_B_def
        insert_Note_def utcnow_def touch_task_def flush_Task_def clk_example_def Let_def)

section \<open>Invariants of histories\<close>

lemma step_monotone:
  assumes m: "nondecreasing clk" and inv: "touched_before_now clk s"
  shows "touched_before_now clk (step clk a s) \<and> ticks s \<le> ticks (step clk a s) \<and>
         (\<forall>j t. Task_row s j = Some t \<longrightarrow>
            (\<exists>t'. Task_row (step clk a s) j = Some t' \<and>
                  last_touched_at t \<le> last_touched_at t'))"
proof (cases a)
  case (Update i body)
  show ?thesis
  proof (cases "query_Task_get s i")
    case (Inl e)
    then have "step clk a s = s" using Update by (simp add: update_task_def)
    then show ?thesis using inv by simp
  next
    case (Inr row)
    then have r: "int64_ok i" and row: "Task_row s i = row" by (simp_all add: query_Task_get_Inr)
    show ?thesis
    proof (cases row)
      case None
      then have "step clk a s = s" using Update Inr by (simp add: update_task_def)
      then show ?thesis using inv by simp
    next
      case (Some tk)
      with row have g: "Task_row s i = Some tk" by simp
      from g have tin: "tk \<in> set (tasks s)" by (simp add: Task_row_Some)
      with inv have ltk: "last_touched_at tk \<le> clk (ticks s)" by (simp add: touched_before_now_def)
      show ?thesis
      proof (cases rule: update_task_outcome[OF g r, of clk body])
        case (1 u s' k)
        have st: "step clk a s = s'" using Update 1(1) by simp
        have ck: "clk (ticks s) \<le> clk k" "clk k \<le> clk (ticks s')"
          using m 1(4,5) by (auto simp: nondecreasing_def)
        have cs: "clk (ticks s) \<le> clk (ticks s')" using ck by simp
        have inv': "touched_before_now clk s'"
          unfolding touched_before_now_def
        proof
          fix r assume "r \<in> set (tasks s')"
          from 1(7)[OF this] show "last_touched_at r \<le> clk (ticks s')"
          proof (elim disjE)
            assume "r \<in> set (tasks s)"
            with inv have "last_touched_at r \<le> clk (ticks s)" by (simp add: touched_before_now_def)
            with cs show ?thesis by simp
          next
            assume "last_touched_at r = clk k" with ck show ?thesis by simp
          next
            assume "last_touched_at r = last_touched_at tk" with ltk cs show ?thesis by simp
          qed
        qed
        have mono: "\<exists>t'. Task_row s' j = Some t' \<and> last_touched_at t \<le> last_touched_at t'"
          if "Task_row s j = Some t" for j t
        proof (cases "j = i")
          case True
          with that g have "t = tk" by simp
          with True 1(2)[of j] ltk ck show ?thesis by simp
        next
          case False
          with that 1(2)[of j] show ?thesis by simp
        qed
        from inv' mono 1(4,5) show ?thesis unfolding st by auto
      next
        case (2 s')
        have st: "step clk a s = s'" using Update 2(1) by simp
        have tr: "Task_row s' j = Task_row s j" for j
          using 2(2) by (simp add: Task_row_def)
        have "touched_before_now clk s'"
          unfolding touched_before_now_def
        proof
          fix r assume "r \<in> set (tasks s')"
          with 2(2) inv have "last_touched_at r \<le> clk (ticks s)"
            by (simp add: touched_before_now_def)
          also have "\<dots> \<le> clk (ticks s')" using m 2(5) by (simp add: nondecreasing_def)
          finally show "last_touched_at r \<le> clk (ticks s')" .
        qed
        with 2(5) tr show ?thesis unfolding st by simp
      qed
    qed
  qed
next
  case (AddNote body)
  show ?thesis
  proof (cases "query_Task_get s (note_task_id body)")
    case (Inl e)
    then have "step clk a s = s" using AddNote by (simp add: create_note_def)
    then show ?thesis using inv by simp
  next
    case (Inr row)
    then have r: "int64_ok (note_task_id body)" and row: "Task_row s (note_task_id body) = row"
      by (simp_all add: query_Task_get_Inr)
    show ?thesis
    proof (cases row)
      case None
      then have "step clk a s = s" using AddNote Inr by (simp add: create_note_def)
      then show ?thesis using inv by simp
    next
      case (Some tk)
      with row have g: "Task_row s (note_task_id body) = Some tk" by simp
      from g have tin: "tk \<in> set (tasks s)" by (simp add: Task_row_Some)
      with inv have ltk: "last_touched_at tk \<le> clk (ticks s)" by (simp add: touched_before_now_def)
      show ?thesis
      proof (cases rule: create_note_effect[OF g r, of clk])
        case (1 nt s')
        have st: "step clk a s = s'" using AddNote 1(1) by simp
        define tk' where "tk' = tk\<lparr>last_touched_at := clk (Suc (ticks s)),
                                     updated_at := clk (Suc (Suc (ticks s)))\<rparr>"
        have ck: "clk (ticks s) \<le> clk (Suc (ticks s))" "clk (Suc (ticks s)) \<le> clk (ticks s')"
          "clk (ticks s) \<le> clk (ticks s')"
          using m 1(5) by (auto simp: nondecreasing_def)
        have sub: "set (tasks s') \<subseteq> set (tasks s) \<union> {tk'}"
          using 1(7) by (simp add: tk'_def)
        have inv': "touched_before_now clk s'"
          unfolding touched_before_now_def
        proof
          fix r assume "r \<in> set (tasks s')"
          with sub have "r \<in> set (tasks s) \<or> r = tk'" by auto
          then show "last_touched_at r \<le> clk (ticks s')"
          proof
            assume "r \<in> set (tasks s)"
            with inv have "last_touched_at r \<le> clk (ticks s)" by (simp add: touched_before_now_def)
            with ck show ?thesis by simp
          next
            assume "r = tk'" with ck show ?thesis by (simp add: tk'_def)
          qed
        qed
        have mono: "\<exists>t'. Task_row s' j = Some t' \<and> last_touched_at t \<le> last_touched_at t'"
          if "Task_row s j = Some t" for j t
        proof (cases "j = note_task_id body")
          case True
          with that g have "t = tk" by simp
          with True 1(6)[of j] ltk ck show ?thesis by simp
        next
          case False
          with that 1(6)[of j] show ?thesis by simp
        qed
        from inv' mono 1(5) show ?thesis unfolding st by auto
      qed
    qed
  qed
qed

lemma run_monotone:
  assumes m: "nondecreasing clk" and inv: "touched_before_now clk s"
  shows "touched_before_now clk (run clk acts s) \<and>
         (\<forall>j t. Task_row s j = Some t \<longrightarrow>
            (\<exists>t'. Task_row (run clk acts s) j = Some t' \<and>
                  last_touched_at t \<le> last_touched_at t'))"
  using inv
proof (induction acts arbitrary: s)
  case Nil
  then show ?case by (simp add: run_def)
next
  case (Cons a acts)
  note one = step_monotone[OF m Cons.prems, of a]
  from one have inv1: "touched_before_now clk (step clk a s)" by simp
  note rest = Cons.IH[OF inv1]
  have r: "run clk (a # acts) s = run clk acts (step clk a s)" by (simp add: run_def)
  show ?case unfolding r
  proof (intro conjI allI impI)
    show "touched_before_now clk (run clk acts (step clk a s))" using rest by simp
  next
    fix j t assume "Task_row s j = Some t"
    with one obtain t1 where t1: "Task_row (step clk a s) j = Some t1"
      "last_touched_at t \<le> last_touched_at t1" by blast
    with rest obtain t2 where "Task_row (run clk acts (step clk a s)) j = Some t2"
      "last_touched_at t1 \<le> last_touched_at t2" by blast
    with t1 show "\<exists>t'. Task_row (run clk acts (step clk a s)) j = Some t' \<and>
                        last_touched_at t \<le> last_touched_at t'" by auto
  qed
qed

lemma touched_before_now_append:
  assumes m: "nondecreasing clk" and inv: "touched_before_now clk s"
    and t: "tasks s' = tasks s @ [tk']" and l: "last_touched_at tk' = clk k"
    and k: "k \<le> ticks s'" and le: "ticks s \<le> ticks s'"
  shows "touched_before_now clk s'"
  unfolding touched_before_now_def
proof
  fix r assume "r \<in> set (tasks s')"
  with t have "r \<in> set (tasks s) \<or> r = tk'" by auto
  then show "last_touched_at r \<le> clk (ticks s')"
  proof
    assume "r \<in> set (tasks s)"
    with inv have "last_touched_at r \<le> clk (ticks s)" by (simp add: touched_before_now_def)
    also have "\<dots> \<le> clk (ticks s')" using m le by (simp add: nondecreasing_def)
    finally show ?thesis .
  next
    assume "r = tk'"
    with l k m show ?thesis by (simp add: nondecreasing_def)
  qed
qed

lemma touched_before_now_subset:
  assumes m: "nondecreasing clk" and inv: "touched_before_now clk s"
    and t: "set (tasks s') \<subseteq> set (tasks s)" and le: "ticks s \<le> ticks s'"
  shows "touched_before_now clk s'"
  unfolding touched_before_now_def
proof
  fix r assume "r \<in> set (tasks s')"
  with t inv have "last_touched_at r \<le> clk (ticks s)" by (auto simp: touched_before_now_def)
  also have "\<dots> \<le> clk (ticks s')" using m le by (simp add: nondecreasing_def)
  finally show "last_touched_at r \<le> clk (ticks s')" .
qed

lemma quick_capture_touched:
  assumes m: "nondecreasing clk" and inv: "touched_before_now clk s"
  shows "touched_before_now clk (snd (quick_capture clk pn ttl descr na s))"
proof -
  obtain proj s1 where p: "get_or_create_project clk pn s = (proj, s1)"
    by (cases "get_or_create_project clk pn s")
  note k1 = get_or_create_project_ticks[OF p]
  show ?thesis
  proof (cases rule: quick_capture_effect[OF p, of ttl descr na])
    case (1 tk' s')
    have "touched_before_now clk s'"
      by (rule touched_before_now_append[OF m inv 1(2) 1(13)]) (use 1(14) k1 in auto)
    with 1(1) show ?thesis by simp
  qed
qed

lemma create_task_touched:
  assumes m: "nondecreasing clk" and inv: "touched_before_now clk s"
  shows "touched_before_now clk (snd (create_task clk body s))"
proof -
  obtain proj s1 where p: "get_or_create_project clk (in_project_name body) s = (proj, s1)"
    by (cases "get_or_create_project clk (in_project_name body) s")
  note k1 = get_or_create_project_ticks[OF p]
  have ts: "tasks s1 = tasks s"
    by (rule get_or_create_project_effect[of clk "in_project_name body" s]) (use p in simp)
  show ?thesis
  proof (cases "int64_ok (in_priority body)")
    case True
    show ?thesis
    proof (cases rule: create_task_effect[OF p True])
      case (1 tk' s')
      have "touched_before_now clk s'"
        by (rule touched_before_now_append[OF m inv 1(2) 1(13)]) (use 1(14) k1 in auto)
      with 1(1) show ?thesis by simp
    qed
  next
    case False
    have "touched_before_now clk (s1\<lparr>ticks := Suc (Suc (Suc (ticks s1)))\<rparr>)"
      by (rule touched_before_now_subset[OF m inv]) (use ts k1 in simp_all)
    then show ?thesis using create_task_overflow[OF p False] by simp
  qed
qed

lemma update_task_notes: "notes (snd (update_task clk i body s)) = notes s"
proof (cases "query_Task_get s i")
  case (Inl e)
  then show ?thesis by (simp add: update_task_def)
next
  case (Inr row)
  then have r: "int64_ok i" and g: "Task_row s i = row" by (simp_all add: query_Task_get_Inr)
  show ?thesis
  proof (cases row)
    case None
    with Inr show ?thesis by (simp add: update_task_def)
  next
    case (Some tk)
    with g have g': "Task_row s i = Some tk" by simp
    show ?thesis by (cases rule: update_task_outcome[OF g' r, of clk body]) simp_all
  qed
qed

lemma serve_touched:
  assumes m: "nondecreasing clk" and inv: "touched_before_now clk s"
  shows "touched_before_now clk (serve clk r s)"
proof (cases r)
  case (Quick_capture pn ttl descr na)
  then show ?thesis using quick_capture_touched[OF m inv] by simp
next
  case (Create_project j)
  show ?thesis
  proof (cases "validate_ProjectIn j")
    case (Inl e)
    with Create_project inv show ?thesis by (simp add: post_api_projects_def)
  next
    case (Inr body)
    obtain proj s1 where p: "get_or_create_project clk (Some (in_name body)) s = (proj, s1)"
      by (cases "get_or_create_project clk (Some (in_name body)) s")
    have "tasks s1 = tasks s"
      by (rule get_or_create_project_effect[of clk "Some (in_name body)" s]) (use p in simp)
    then have "touched_before_now clk s1"
      using touched_before_now_subset[OF m inv, of s1] get_or_create_project_ticks[OF p] by simp
    with Create_project Inr p show ?thesis
      by (simp add: post_api_projects_def create_project_def)
  qed
next
  case (Create_task j)
  show ?thesis
  proof (cases "validate_TaskIn j")
    case (Inl e)
    with Create_task inv show ?thesis by (simp add: post_api_tasks_def)
  next
    case (Inr body)
    with Create_task create_task_touched[OF m inv, of body] show ?thesis
      by (simp add: post_api_tasks_def)
  qed
next
  case (Get_task i)
  with inv show ?thesis by (simp add: get_task_def split: sum.split option.split)
next
  case (Update_task i body)
  with step_monotone[OF m inv, of "Update i body"] show ?thesis by simp
next
  case (Create_note j)
  show ?thesis
  proof (cases "validate_NoteIn j")
    case (Inl e)
    with Create_note inv show ?thesis by (simp add: post_api_notes_def)
  next
    case (Inr body)
    with Create_note step_monotone[OF m inv, of "AddNote body"] show ?thesis
      by (simp add: post_api_notes_def)
  qed
next
  case Resume
  with inv show ?thesis by (simp add: resume_def split: list.split)
next
  case (Delete_task i)
  have "touched_before_now clk (snd (delete_task i s))"
    by (rule touched_before_now_subset[OF m inv])
       (auto simp: delete_task_def split: sum.split option.split)
  with Delete_task show ?thesis by simp
next
  case (Delete_note i)
  have "touched_before_now clk (snd (delete_note i s))"
    by (rule touched_before_now_subset[OF m inv])
       (auto simp: delete_note_def split: sum.split option.split)
  with Delete_note show ?thesis by simp
qed

lemma fold_serve_touched:
  assumes m: "nondecreasing clk"
  shows "touched_before_now clk s \<Longrightarrow> touched_before_now clk (fold (serve clk) reqs s)"
  by (induction reqs arbitrary: s) (simp_all add: serve_touched[OF m])

lemma history_touched: "nondecreasing clk \<Longrightarrow> touched_before_now clk (history clk reqs)"
  unfolding history_def
  by (rule fold_serve_touched) (simp_all add: touched_before_now_def)

text \<open>Note ids stay distinct: a new note gets a fresh id, and no note changes its id.\<close>

lemma serve_distinct_notes:
  assumes d: "distinct (map n_id (notes s))"
  shows "distinct (map n_id (notes (serve clk r s)))"
proof (cases r)
  case (Quick_capture pn ttl descr na)
  obtain proj s1 where p: "get_or_create_project clk pn s = (proj, s1)"
    by (cases "get_or_create_project clk pn s")
  show ?thesis
  proof (cases rule: quick_capture_effect[OF p, of ttl descr na])
    case (1 tk' s')
    from 1(12) d next_id_fresh[of "map n_id (notes s)"]
    have "distinct (map n_id (notes s'))" by (simp split: if_splits)
    with Quick_capture 1(1) show ?thesis by simp
  qed
next
  case (Create_project j)
  show ?thesis
  proof (cases "validate_ProjectIn j")
    case (Inl e)
    with Create_project d show ?thesis by (simp add: post_api_projects_def)
  next
    case (Inr body)
    obtain proj s1 where p: "get_or_create_project clk (Some (in_name body)) s = (proj, s1)"
      by (cases "get_or_create_project clk (Some (in_name body)) s")
    have "notes s1 = notes s"
      by (rule get_or_create_project_effect[of clk "Some (in_name body)" s]) (use p in simp)
    with Create_project Inr p d show ?thesis
      by (simp add: post_api_projects_def create_project_def)
  qed
next
  case (Create_task j)
  show ?thesis
  proof (cases "validate_TaskIn j")
    case (Inl e)
    with Create_task d show ?thesis by (simp add: post_api_tasks_def)
  next
    case (Inr body)
    with Create_task d show ?thesis by (simp add: post_api_tasks_def create_task_notes)
  qed
next
  case (Get_task i)
  with d show ?thesis by (simp add: get_task_def split: sum.split option.split)
next
  case (Update_task i body)
  with d show ?thesis by (simp add: update_task_notes)
next
  case (Create_note j)
  show ?thesis
  proof (cases "validate_NoteIn j")
    case (Inl e)
    with Create_note d show ?thesis by (simp add: post_api_notes_def)
  next
    case (Inr body)
    show ?thesis
    proof (cases "query_Task_get s (note_task_id body)")
      case bad: (Inl e)
      with Create_note Inr d show ?thesis by (simp add: post_api_notes_def create_note_def)
    next
      case row: (Inr row)
      then have r: "int64_ok (note_task_id body)" and g: "Task_row s (note_task_id body) = row"
        by (simp_all add: query_Task_get_Inr)
      show ?thesis
      proof (cases row)
        case None
        with Create_note Inr row d show ?thesis by (simp add: post_api_notes_def create_note_def)
      next
        case (Some tk)
        with g have g': "Task_row s (note_task_id body) = Some tk" by simp
        show ?thesis
        proof (cases rule: create_note_effect[OF g' r, of clk])
          case (1 nt s')
          from 1(2,3) d next_id_fresh[of "map n_id (notes s)"]
          have "distinct (map n_id (notes s'))" by simp
          with Create_note Inr 1(1) show ?thesis by (simp add: post_api_notes_def)
        qed
      qed
    qed
  qed
next
  case Resume
  with d show ?thesis by (simp add: resume_def split: list.split)
next
  case (Delete_task i)
  with d show ?thesis
    by (auto simp: delete_task_def distinct_map_filter split: sum.split option.split)
next
  case (Delete_note i)
  with d show ?thesis
    by (auto simp: delete_note_def distinct_map_filter split: sum.split option.split)
qed

lemma history_distinct_notes: "distinct (map n_id (notes (history clk reqs)))"
proof -
  have "distinct (map n_id (notes s)) \<Longrightarrow> distinct (map n_id (notes (fold (serve clk) reqs s)))"
    for s
    by (induction reqs arbitrary: s) (simp_all add: serve_distinct_notes)
  then show ?thesis by (simp add: history_def)
qed

section \<open>Resume\<close>

text \<open>
  C1. When no task has one of the statuses \<open>todo\<close>, \<open>in_progress\<close>, \<open>paused\<close>,
  \<open>resume\<close> raises the 404 "No active tasks yet". Otherwise it answers with
  one of the tasks that have such a status, none of which was touched later, and
  with the first five (or all, when fewer) of that task's notes in decreasing
  order of \<open>created_at\<close>: the answer's notes followed by some remainder are the
  task's notes, sorted.
\<close>

theorem resume_selects_latest_active:
  "((\<forall>t\<in>set (tasks s). status t \<notin> {''todo'', ''in_progress'', ''paused''}) \<longrightarrow>
      resume s = (Inl NoActiveTaskError, s)) \<and>
   ((\<exists>t\<in>set (tasks s). status t \<in> {''todo'', ''in_progress'', ''paused''}) \<longrightarrow>
      (\<exists>out rest. resume s = (Inr out, s) \<and>
         task out \<in> set (tasks s) \<and>
         status (task out) \<in> {''todo'', ''in_progress'', ''paused''} \<and>
         (\<forall>t\<in>set (tasks s). status t \<in> {''todo'', ''in_progress'', ''paused''} \<longrightarrow>
            last_touched_at t \<le> last_touched_at (task out)) \<and>
         length (latest_notes out) =
           min 5 (length (filter (\<lambda>n. task_id n = t_id (task out)) (notes s))) \<and>
         mset (latest_notes out @ rest) =
           mset (filter (\<lambda>n. task_id n = t_id (task out)) (notes s)) \<and>
         sorted_wrt (\<lambda>a b. n_created_at b \<le> n_created_at a) (latest_notes out @ rest)))"
proof -
  define P :: "Task \<Rightarrow> bool" where "P = (\<lambda>t. status t \<in> set [''in_progress'', ''todo'', ''paused''])"
  have P: "P t \<longleftrightarrow> status t \<in> {''todo'', ''in_progress'', ''paused''}" for t
    by (auto simp: P_def)
  define ys where "ys = order_by_desc_index last_touched_at (filter P (tasks s))"
  have r: "resume s =
     (case ys of
        [] \<Rightarrow> (Inl (HTTPException 404 ''No active tasks yet. Create one at / or POST /api/tasks.''), s)
      | t # _ \<Rightarrow>
          (Inr \<lparr>task = t,
                latest_notes = take 5 (order_by_desc n_created_at
                                  (filter (\<lambda>n. task_id n = t_id t) (notes s)))\<rparr>, s))"
    by (simp add: resume_def ys_def P_def)
  have sy: "set ys = {t \<in> set (tasks s). P t}" by (auto simp: ys_def order_by_desc_index_set)
  show ?thesis
  proof (cases ys)
    case Nil
    with sy have none: "\<forall>t\<in>set (tasks s). \<not> P t" by auto
    from Nil r have "resume s = (Inl NoActiveTaskError, s)" by (simp add: NoActiveTaskError_def)
    with none show ?thesis by (simp add: P)
  next
    case (Cons t more)
    define zs where "zs = order_by_desc n_created_at (filter (\<lambda>n. task_id n = t_id t) (notes s))"
    define out where "out = \<lparr>task = t, latest_notes = take 5 zs\<rparr>"
    have res: "resume s = (Inr out, s)" using r Cons by (simp add: out_def zs_def)
    from Cons sy have tin: "t \<in> set (tasks s)" "P t" by auto
    have "sorted_wrt (\<lambda>a b. last_touched_at b \<le> last_touched_at a) ys"
      unfolding ys_def by (rule order_by_desc_index_sorted)
    with Cons have "\<forall>x\<in>set more. last_touched_at x \<le> last_touched_at t" by simp
    with Cons have top: "\<forall>x\<in>set ys. last_touched_at x \<le> last_touched_at t" by simp
    have mx: "\<forall>x\<in>set (tasks s). P x \<longrightarrow> last_touched_at x \<le> last_touched_at t"
      using top sy by simp
    have len: "length (take 5 zs) = min 5 (length (filter (\<lambda>n. task_id n = t_id t) (notes s)))"
    proof -
      have "length zs = length (filter (\<lambda>n. task_id n = t_id t) (notes s))"
        by (metis zs_def order_by_desc_mset size_mset)
      then show ?thesis by (simp add: min.commute)
    qed
    have ms: "mset (take 5 zs @ drop 5 zs) = mset (filter (\<lambda>n. task_id n = t_id t) (notes s))"
      by (simp add: zs_def order_by_desc_mset)
    have so: "sorted_wrt (\<lambda>a b. n_created_at b \<le> n_created_at a) (take 5 zs @ drop 5 zs)"
      unfolding zs_def by (simp add: order_by_desc_sorted)
    have "\<exists>out rest. resume s = (Inr out, s) \<and>
         task out \<in> set (tasks s) \<and> P (task out) \<and>
         (\<forall>t\<in>set (tasks s). P t \<longrightarrow> last_touched_at t \<le> last_touched_at (task out)) \<and>
         length (latest_notes out) =
           min 5 (length (filter (\<lambda>n. task_id n = t_id (task out)) (notes s))) \<and>
         mset (latest_notes out @ rest) =
           mset (filter (\<lambda>n. task_id n = t_id (task out)) (notes s)) \<and>
         sorted_wrt (\<lambda>a b. n_created_at b \<le> n_created_at a) (latest_notes out @ rest)"
      using res tin mx len ms so
      by (intro exI[of _ out] exI[of _ "drop 5 zs"]) (simp add: out_def)
    then show ?thesis unfolding P by blast
  qed
qed

theorem resume_selects_latest_active_witness:
  "resume db_empty = (Inl NoActiveTaskError, db_empty) \<and>
   task_A \<in> set (tasks db_example) \<and> status task_A = ''in_progress'' \<and>
   (\<exists>out rest. resume db_example = (Inr out, db_example) \<and>
      task out = task_A \<and> latest_notes out = [note_2, note_1] \<and>
      length (latest_notes out) = 2 \<and>
      mset (latest_notes out @ rest) = mset [note_1, note_2] \<and>
      sorted_wrt (\<lambda>a b. n_created_at b \<le> n_created_at a) (latest_notes out @ rest))"
proof -
  have e: "\<forall>t\<in>set (tasks db_empty). status t \<notin> {''todo'', ''in_progress'', ''paused''}"
    by (simp add: db_empty_def)
  from resume_selects_latest_active [of db_empty] e
  have a: "resume db_empty = (Inl NoActiveTaskError, db_empty)" by blast
  have b: "task_A \<in> set (tasks db_example)" "status task_A = ''in_progress''"
    by (simp_all add: db_example_def task_A_def)
  then have ex: "\<exists>t\<in>set (tasks db_example). status t \<in> {''todo'', ''in_progress'', ''paused''}"
    by auto
  from resume_selects_latest_active [of db_example, THEN conjunct2, THEN mp, OF ex]
  obtain out rest where h:
    "resume db_example = (Inr out, db_example)"
    "length (latest_notes out) =
       min 5 (length (filter (\<lambda>n. task_id n = t_id (task out)) (notes db_example)))"
    "mset (latest_notes out @ rest) =
       mset (filter (\<lambda>n. task_id n = t_id (task out)) (notes db_example))"
    "sorted_wrt (\<lambda>a b. n_created_at b \<le> n_created_at a) (latest_notes out @ rest)"
    by (elim exE conjE) (rule that; assumption)
  from h(1) resume_db_example have o: "out = \<lparr>task = task_A, latest_notes = [note_2, note_1]\<rparr>"
    by simp
  have f: "filter (\<lambda>n. task_id n = t_id task_A) (notes db_example) = [note_1, note_2]"
    by (simp add: db_example_def task_A_def note_1_def note_2_def note_3_def)
  from h o f have c: "\<exists>out rest. resume db_example = (Inr out, db_example) \<and>
      task out = task_A \<and> latest_notes out = [note_2, note_1] \<and>
      length (latest_notes out) = 2 \<and>
      mset (latest_notes out @ rest) = mset [note_1, note_2] \<and>
      sorted_wrt (\<lambda>a b. n_created_at b \<le> n_created_at a) (latest_notes out @ rest)"
    by (intro exI[of _ out] exI[of _ rest]) simp
  show ?thesis
    by (intro conjI; (rule a b c))
qed

text \<open>
  C8. \<open>resume\<close> returns the database it was given, clock reads included, so a
  second call right after the first gives the same response and the same
  database: nothing is touched, the selected task's \<open>last_touched_at\<close> included.
\<close>

theorem resume_read_only:
  "snd (resume s) = s \<and> resume (snd (resume s)) = resume s"
proof -
  have "snd (resume s) = s"
    by (simp add: resume_def split: list.split)
  then show ?thesis by simp
qed

section \<open>The snapshot note\<close>

text \<open>
  C2 (as amended). A quick capture creates the task and, when the description has
  a character that is not whitespace, exactly one note: kind \<open>snapshot\<close>, on
  the new task, with the description as given (not stripped) as content. When
  the description is empty or all whitespace no note is created. Creating a task
  through \<open>create_task\<close> with an empty description creates no note.
\<close>

theorem quick_capture_snapshot:
  "(\<exists>tk' s'. quick_capture clk pn ttl descr na s = (Inr tk', s') \<and>
      tasks s' = tasks s @ [tk'] \<and> t_id tk' = next_id (map t_id (tasks s)) \<and>
      description tk' = descr \<and>
      ((\<exists>c\<in>set descr. \<not> py_isspace c) \<longrightarrow>
         (\<exists>sn. notes s' = notes s @ [sn] \<and> kind sn = ''snapshot'' \<and>
               task_id sn = t_id tk' \<and> content sn = descr)) \<and>
      ((\<forall>c\<in>set descr. py_isspace c) \<longrightarrow> notes s' = notes s)) \<and>
   (in_description body = [] \<longrightarrow> notes (snd (create_task clk body s)) = notes s)"
proof
  obtain proj s1 where p: "get_or_create_project clk pn s = (proj, s1)"
    by (cases "get_or_create_project clk pn s")
  show "\<exists>tk' s'. quick_capture clk pn ttl descr na s = (Inr tk', s') \<and>
      tasks s' = tasks s @ [tk'] \<and> t_id tk' = next_id (map t_id (tasks s)) \<and>
      description tk' = descr \<and>
      ((\<exists>c\<in>set descr. \<not> py_isspace c) \<longrightarrow>
         (\<exists>sn. notes s' = notes s @ [sn] \<and> kind sn = ''snapshot'' \<and>
               task_id sn = t_id tk' \<and> content sn = descr)) \<and>
      ((\<forall>c\<in>set descr. py_isspace c) \<longrightarrow> notes s' = notes s)"
  proof (cases rule: quick_capture_effect[OF p, of ttl descr na])
    case (1 tk' s')
    have yes: "\<exists>sn. notes s' = notes s @ [sn] \<and> kind sn = ''snapshot'' \<and>
               task_id sn = t_id tk' \<and> content sn = descr"
      if "\<exists>c\<in>set descr. \<not> py_isspace c"
    proof -
      from that have "strip descr \<noteq> []" by (simp add: strip_nonempty_iff)
      with 1(12) show ?thesis by simp
    qed
    have no: "notes s' = notes s" if "\<forall>c\<in>set descr. py_isspace c"
    proof -
      from that have "strip descr = []" using strip_nonempty_iff[of descr] by blast
      with 1(12) show ?thesis by simp
    qed
    from 1(1,2,4,6) yes no show ?thesis by blast
  qed
next
  obtain proj s1 where p: "get_or_create_project clk (in_project_name body) s = (proj, s1)"
    by (cases "get_or_create_project clk (in_project_name body) s")
  show "in_description body = [] \<longrightarrow> notes (snd (create_task clk body s)) = notes s"
    by (simp add: create_task_notes)
qed

text \<open>
  C2 as stated fails twice: a quick capture whose description is two spaces
  creates no note although the description is not empty, and \<open>create_task\<close>
  with the description "context" creates no note.
\<close>

theorem snapshot_counterexample:
  "''  '' \<noteq> [] \<and>
   notes (snd (quick_capture clk_example None ''Fix token expiry'' ''  '' [] db_empty)) = [] \<and>
   in_description described \<noteq> [] \<and>
   notes (snd (create_task clk_example described db_empty)) = []"
  by (simp add: quick_capture_def create_task_def described_def get_or_create_project_def
        insert_Task_def utcnow_def touch_task_def flush_Task_def Task_row_def int64_ok_def
        next_id_def strip_def py_isspace_def str_or_def int_or_def db_empty_def clk_example_def
        Let_def)

theorem quick_capture_snapshot_witness:
  "(\<exists>c\<in>set ''context''. \<not> py_isspace c) \<and>
   (\<exists>tk' s' sn. quick_capture clk_example (Some ''Infra'') ''Fix token expiry'' ''context'' [] db_empty
                   = (Inr tk', s') \<and>
      tasks s' = [tk'] \<and> t_id tk' = 1 \<and> description tk' = ''context'' \<and>
      notes s' = [sn] \<and> kind sn = ''snapshot'' \<and> task_id sn = 1 \<and> content sn = ''context'') \<and>
   py_isspace CHR '' '' \<and>
   (\<exists>tk' s'. quick_capture clk_example None ''Fix token expiry'' ''  '' [] db_example = (Inr tk', s') \<and>
      description tk' = ''  '' \<and> notes s' = notes db_example) \<and>
   in_description (described\<lparr>in_description := []\<rparr>) = [] \<and>
   notes (snd (create_task clk_example (described\<lparr>in_description := []\<rparr>) db_example)) = notes db_example"
proof -
  have a: "\<exists>c\<in>set ''context''. \<not> py_isspace c"
    using not_py_isspace_c by simp
  have b: "\<forall>c\<in>set ''  ''. py_isspace c"
    using py_isspace_space by simp
  have e: "tasks db_empty = []" "notes db_empty = []" by (simp_all add: db_empty_def)
  from quick_capture_snapshot
         [of clk_example "Some ''Infra''" "''Fix token expiry''" "''context''" "[]" db_empty described]
  obtain tk' s' where h:
    "quick_capture clk_example (Some ''Infra'') ''Fix token expiry'' ''context'' [] db_empty = (Inr tk', s')"
    "tasks s' = tasks db_empty @ [tk']" "t_id tk' = next_id (map t_id (tasks db_empty))"
    "description tk' = ''context''"
    "(\<exists>c\<in>set ''context''. \<not> py_isspace c) \<longrightarrow>
       (\<exists>sn. notes s' = notes db_empty @ [sn] \<and> kind sn = ''snapshot'' \<and>
             task_id sn = t_id tk' \<and> content sn = ''context'')"
    by blast
  from h(5) a obtain sn where sn:
    "notes s' = notes db_empty @ [sn]" "kind sn = ''snapshot''" "task_id sn = t_id tk'"
    "content sn = ''context''"
    by blast
  from h(3) have i1: "t_id tk' = 1" by (simp add: e next_id_def)
  from h(1,2,4) sn i1
  have c: "\<exists>tk' s' sn. quick_capture clk_example (Some ''Infra'') ''Fix token expiry'' ''context'' [] db_empty
                   = (Inr tk', s') \<and>
      tasks s' = [tk'] \<and> t_id tk' = 1 \<and> description tk' = ''context'' \<and>
      notes s' = [sn] \<and> kind sn = ''snapshot'' \<and> task_id sn = 1 \<and> content sn = ''context''"
    by (simp add: e)
  from quick_capture_snapshot
         [of clk_example None "''Fix token expiry''" "''  ''" "[]" db_example described] b
  have d: "\<exists>tk' s'. quick_capture clk_example None ''Fix token expiry'' ''  '' [] db_example = (Inr tk', s') \<and>
      description tk' = ''  '' \<and> notes s' = notes db_example"
    by blast
  have g: "in_description (described\<lparr>in_description := []\<rparr>) = []" by simp
  from quick_capture_snapshot
         [of clk_example None "[]" "[]" "[]" db_example "described\<lparr>in_description := []\<rparr>"] g
  have f: "notes (snd (create_task clk_example (described\<lparr>in_description := []\<rparr>) db_example)) = notes db_example"
    by blast
  from a py_isspace_space c d f g show ?thesis by blast
qed

section \<open>Creating a note\<close>

text \<open>
  C3 (as amended). Creating a note on an existing task reads the clock three
  times: for the note's \<open>created_at\<close>, for the task's \<open>last_touched_at\<close>, and
  for the \<open>onupdate\<close> of \<open>updated_at\<close> that the \<open>UPDATE\<close> of the touch fires.
  Both timestamps of the task are refreshed; every other column keeps its value.
\<close>

theorem create_note_refreshes_both_timestamps:
  "query_Task_get s (note_task_id body) = Inr (Some tk) \<Longrightarrow>
   \<exists>nt s'. create_note clk body s = (Inr nt, s') \<and>
     ticks s' = Suc (Suc (Suc (ticks s))) \<and>
     query_Task_get s' (note_task_id body) =
       Inr (Some (tk\<lparr>last_touched_at := clk (Suc (ticks s)),
                      updated_at := clk (Suc (Suc (ticks s)))\<rparr>))"
proof -
  assume "query_Task_get s (note_task_id body) = Inr (Some tk)"
  then have r: "int64_ok (note_task_id body)" and g: "Task_row s (note_task_id body) = Some tk"
    by (simp_all add: query_Task_get_Inr)
  show ?thesis
  proof (cases rule: create_note_effect[OF g r, of clk])
    case (1 nt s')
    from 1(1,5) 1(6)[of "note_task_id body"] r show ?thesis by (simp add: query_Task_get_def)
  qed
qed

text \<open>
  C3 as stated fails: task 1 of the example has \<open>updated_at = 1009\<close>, and after a
  note is added to it at clock readings 1018 to 1020 it has \<open>updated_at = 1020\<close>.
\<close>

theorem create_note_updated_at_counterexample:
  "map_option updated_at (Task_row db_example 1) = Some 1009 \<and>
   map_option updated_at
     (Task_row (snd (create_note clk_example
        \<lparr>note_task_id = 1, note_content = ''x'', note_kind = ''note''\<rparr> db_example)) 1) = Some 1020"
  by (simp add: create_note_def query_Task_get_def Task_row_def int64_ok_def db_example_def
        task_A_def task_B_def insert_Note_def utcnow_def touch_task_def flush_Task_def
        clk_example_def Let_def)

theorem create_note_refreshes_both_timestamps_witness:
  "query_Task_get db_example (note_task_id \<lparr>note_task_id = 1, note_content = ''x'', note_kind = ''note''\<rparr>) = Inr (Some task_A) \<and>
   (\<exists>nt s'. create_note clk_example \<lparr>note_task_id = 1, note_content = ''x'', note_kind = ''note''\<rparr> db_example = (Inr nt, s') \<and>
     ticks s' = 21 \<and>
     query_Task_get s' 1 = Inr (Some (task_A\<lparr>last_touched_at := 1019, updated_at := 1020\<rparr>)))"
  using create_note_refreshes_both_timestamps
          [of db_example "\<lparr>note_task_id = 1, note_content = ''x'', note_kind = ''note''\<rparr>" task_A clk_example]
        db_example_get_1
  by (simp add: clk_example_def db_example_def)




section \<open>Creating a task\<close>







section \<open>Updating a task\<close>




section \<open>Deleting a task\<close>




section \<open>Touch times only grow\<close>

text \<open>
  C9. Take any database the routes have produced from the empty one, with a
  clock that never runs backwards, and any sequence of task updates and note
  creations on it. A task that is there at some point of the sequence is still
  there at every later point, and its \<open>last_touched_at\<close> is not smaller.
\<close>

theorem last_touched_at_monotone:
  assumes "nondecreasing clk"
    and "query_Task_get (run clk before (history clk reqs)) i = Inr (Some t1)"
  shows "\<exists>t2. query_Task_get (run clk after (run clk before (history clk reqs))) i = Inr (Some t2) \<and>
              last_touched_at t1 \<le> last_touched_at t2"
proof -
  from assms(2) have r: "int64_ok i"
    and g: "Task_row (run clk before (history clk reqs)) i = Some t1"
    by (simp_all add: query_Task_get_Inr)
  have "touched_before_now clk (history clk reqs)"
    using assms(1) by (rule history_touched)
  then have "touched_before_now clk (run clk before (history clk reqs))"
    using run_monotone[OF assms(1)] by simp
  from run_monotone[OF assms(1) this, of after] g
  obtain t2 where "Task_row (run clk after (run clk before (history clk reqs))) i = Some t2"
    "last_touched_at t1 \<le> last_touched_at t2" by blast
  with r show ?thesis by (simp add: query_Task_get_def)
qed

theorem last_touched_at_monotone_witness:
  "\<exists>t2. query_Task_get
          (run clk_example [Update 1 rename_patch, AddNote \<lparr>note_task_id = 1,
                              note_content = ''done'', note_kind = []\<rparr>]
             (run clk_example [AddNote \<lparr>note_task_id = 1, note_content = ''rotate keys'',
                                         note_kind = ''note''\<rparr>]
                (history clk_example example_requests))) 1 = Inr (Some t2) \<and>
         1019 \<le> last_touched_at t2"
proof -
  have h: "query_Task_get
             (run clk_example [AddNote \<lparr>note_task_id = 1, note_content = ''rotate keys'',
                                         note_kind = ''note''\<rparr>]
                (history clk_example example_requests)) 1 =
           Inr (Some (task_A\<lparr>last_touched_at := 1019, updated_at := 1020\<rparr>))"
    using run_example_before by (simp add: history_example)
  from last_touched_at_monotone [OF nondecreasing_clk_example h,
         of "[Update 1 rename_patch, AddNote \<lparr>note_task_id = 1, note_content = ''done'',
                                               note_kind = []\<rparr>]"]
  show ?thesis by simp
qed

end
